theory Spec2Isabelle
  imports Complex_Main
begin

section \<open>Scope locator (lib/util/get-innermost-scope.js)\<close>

text \<open>
  A scope of the scope tree built by the scope analysis: the byte range \<open>block.range\<close> of the
  block it belongs to (\<open>[start, end)\<close>), its strictness flag \<open>isStrict\<close> and its
  \<open>childScopes\<close>, in order. Offsets are natural numbers.
\<close>

datatype scope =
  Scope (blockRange: "nat \<times> nat") (scopeStrict: bool) (childScopes: "scope list")

text \<open>The test of the inner loop: \<open>range[0] <= location && location < range[1]\<close>.\<close>

definition containsLocation :: "nat \<Rightarrow> scope \<Rightarrow> bool" where
  "containsLocation location childScope =
     (fst (blockRange childScope) \<le> location \<and> location < snd (blockRange childScope))"

text \<open>
  \<open>getInnermostScope\<close>. The state of the \<open>while\<close> loop is the variable \<open>scope\<close>. One
  round of the loop scans \<open>scope.childScopes\<close> for the first child whose range contains
  the location (\<open>find\<close>); when there is one, \<open>scope\<close> becomes that child, and when there
  is none the \<open>for\<close> loop ends with \<open>scope\<close> unchanged and the \<open>while\<close> condition is
  tested again on the same scope. The loop may therefore run forever, and the function is
  partial: \<open>None\<close> is "does not return".
\<close>

partial_function (option) getInnermostScope :: "scope \<Rightarrow> nat \<Rightarrow> scope option" where
  "getInnermostScope scope location =
     (if childScopes scope = [] then Some scope
      else (case find (containsLocation location) (childScopes scope) of
              Some childScope \<Rightarrow> getInnermostScope childScope location
            | None \<Rightarrow> getInnermostScope scope location))"

text \<open>
  The scope the specification describes ("descend from the root; at each level scan
  children for one whose range contains the offset, descend into it, stop when no child
  matches"), written from the specification's words as a total function, for comparison
  with the code.
\<close>

fun innermost :: "scope \<Rightarrow> nat \<Rightarrow> scope"
  and innermostAmong :: "scope list \<Rightarrow> nat \<Rightarrow> scope option" where
  "innermost (Scope r st cs) location =
     (case innermostAmong cs location of None \<Rightarrow> Scope r st cs | Some s \<Rightarrow> s)"
| "innermostAmong [] location = None"
| "innermostAmong (c # cs) location =
     (if containsLocation location c then Some (innermost c location)
      else innermostAmong cs location)"

text \<open>
  The invariant of the data model: sibling ranges are pairwise disjoint and every child's
  range lies inside its parent's.
\<close>

fun rangesDisjoint :: "(nat \<times> nat) list \<Rightarrow> bool" where
  "rangesDisjoint [] = True"
| "rangesDisjoint (r # rs) =
     (list_all (\<lambda>q. snd r \<le> fst q \<or> snd q \<le> fst r) rs \<and> rangesDisjoint rs)"

fun strictTree :: "scope \<Rightarrow> bool" where
  "strictTree (Scope r st cs) =
     (list_all (\<lambda>c. fst r \<le> fst (blockRange c) \<and> snd (blockRange c) \<le> snd r) cs
      \<and> rangesDisjoint (map blockRange cs)
      \<and> list_all strictTree cs)"

section \<open>Errors\<close>

text \<open>
  The one exception the modelled code can raise: the \<open>TypeError\<close> of reading a property
  of \<open>undefined\<close> or \<open>null\<close>, and the \<open>TypeError\<close> the semver package throws for an
  invalid range. A computation that may throw returns \<open>error + 'a\<close>; \<open>andThen\<close> runs the
  next step when the first one returned.
\<close>

datatype error = TypeError

definition andThen :: "error + 'a \<Rightarrow> ('a \<Rightarrow> error + 'b) \<Rightarrow> error + 'b" where
  "andThen r k = (case r of Inl e \<Rightarrow> Inl e | Inr x \<Rightarrow> k x)"

section \<open>The semver package, as far as the rule uses it\<close>

text \<open>
  The rule calls two functions of the semver package (5.x), which is not part of the
  repository: \<open>validRange\<close> and \<open>intersects\<close>. They are modelled as the package documents
  them, on the part of the range grammar the rule itself builds: a single comparator, an
  optional operator followed by a full version \<open>X.Y.Z\<close> of numeric identifiers without
  leading zeros, each at most \<open>MAX_SAFE_INTEGER\<close>. Every other string (partial versions,
  \<open>^\<close> and \<open>~\<close> ranges, \<open>||\<close>, pre-release tags) is handed to the parameter
  \<open>otherGrammar\<close>, which stands for the rest of the package's parser and answers \<open>None\<close>
  for an invalid range. A parsed range is a list (alternatives) of lists (conjunctions) of
  comparators, as in the package.
\<close>

type_synonym semver = "nat \<times> nat \<times> nat"

definition MAX_SAFE_INTEGER :: nat where
  "MAX_SAFE_INTEGER = 9007199254740991"

definition digitValue :: "char \<Rightarrow> nat option" where
  "digitValue c = map_of
     [(CHR ''0'', 0), (CHR ''1'', 1), (CHR ''2'', 2), (CHR ''3'', 3), (CHR ''4'', 4),
      (CHR ''5'', 5), (CHR ''6'', 6), (CHR ''7'', 7), (CHR ''8'', 8), (CHR ''9'', 9)] c"

fun digitsValue :: "string \<Rightarrow> nat \<Rightarrow> nat option" where
  "digitsValue [] acc = Some acc"
| "digitsValue (c # cs) acc =
     (case digitValue c of None \<Rightarrow> None | Some d \<Rightarrow> digitsValue cs (10 * acc + d))"

definition numericIdentifier :: "string \<Rightarrow> nat option" where
  "numericIdentifier s =
     (case s of
        [] \<Rightarrow> None
      | c # cs \<Rightarrow>
          if c = CHR ''0'' \<and> cs \<noteq> [] then None
          else (case digitsValue s 0 of
                  None \<Rightarrow> None
                | Some n \<Rightarrow> if n \<le> MAX_SAFE_INTEGER then Some n else None))"

fun splitOn :: "char \<Rightarrow> string \<Rightarrow> string list" where
  "splitOn sep [] = [[]]"
| "splitOn sep (c # cs) =
     (if c = sep then [] # splitOn sep cs
      else (case splitOn sep cs of
              [] \<Rightarrow> [[c]]
            | w # ws \<Rightarrow> (c # w) # ws))"

definition parseSemVer :: "string \<Rightarrow> semver option" where
  "parseSemVer s =
     (case splitOn CHR ''.'' s of
        [a, b, c] \<Rightarrow>
          (case numericIdentifier a of None \<Rightarrow> None | Some major \<Rightarrow>
           (case numericIdentifier b of None \<Rightarrow> None | Some minor \<Rightarrow>
            (case numericIdentifier c of None \<Rightarrow> None | Some patch \<Rightarrow>
               Some (major, minor, patch))))
      | _ \<Rightarrow> None)"

text \<open>The order of versions: major, then minor, then patch.\<close>

fun semverLess :: "semver \<Rightarrow> semver \<Rightarrow> bool" where
  "semverLess (a1, b1, c1) (a2, b2, c2) =
     (a1 < a2 \<or> (a1 = a2 \<and> (b1 < b2 \<or> (b1 = b2 \<and> c1 < c2))))"

datatype operator = OpLT | OpLE | OpGT | OpGE | OpEQ

type_synonym comparator = "operator \<times> semver"

type_synonym semverRange = "comparator list list"

definition stripPrefix :: "string \<Rightarrow> string \<Rightarrow> string option" where
  "stripPrefix p s = (if take (length p) s = p then Some (drop (length p) s) else None)"

definition parseComparator :: "string \<Rightarrow> comparator option" where
  "parseComparator s =
     (case stripPrefix ''>='' s of Some v \<Rightarrow> map_option (Pair OpGE) (parseSemVer v) | None \<Rightarrow>
      (case stripPrefix ''<='' s of Some v \<Rightarrow> map_option (Pair OpLE) (parseSemVer v) | None \<Rightarrow>
       (case stripPrefix ''>'' s of Some v \<Rightarrow> map_option (Pair OpGT) (parseSemVer v) | None \<Rightarrow>
        (case stripPrefix ''<'' s of Some v \<Rightarrow> map_option (Pair OpLT) (parseSemVer v) | None \<Rightarrow>
         (case stripPrefix ''='' s of Some v \<Rightarrow> map_option (Pair OpEQ) (parseSemVer v) | None \<Rightarrow>
            map_option (Pair OpEQ) (parseSemVer s))))))"

text \<open>
  \<open>validRange\<close> returns the range, or \<open>None\<close> (the package's \<open>null\<close>) when the string is
  not a range. The package returns the range as a normalised string that \<open>intersects\<close>
  parses again; the model passes the parsed range on.
\<close>

definition validRange :: "(string \<Rightarrow> semverRange option) \<Rightarrow> string \<Rightarrow> semverRange option" where
  "validRange otherGrammar s =
     (case parseComparator s of Some c \<Rightarrow> Some [[c]] | None \<Rightarrow> otherGrammar s)"

text \<open>
  \<open>Comparator.test\<close> and \<open>Comparator.intersects\<close>: a comparator without operator is
  tested as a version against the other comparator; otherwise two comparators intersect
  when they point the same way, or share their version and are both inclusive, or point
  towards each other across a gap.
\<close>

definition comparatorTest :: "comparator \<Rightarrow> semver \<Rightarrow> bool" where
  "comparatorTest c v =
     (case fst c of
        OpLT \<Rightarrow> semverLess v (snd c)
      | OpLE \<Rightarrow> \<not> semverLess (snd c) v
      | OpGT \<Rightarrow> semverLess (snd c) v
      | OpGE \<Rightarrow> \<not> semverLess v (snd c)
      | OpEQ \<Rightarrow> v = snd c)"

definition comparatorIntersects :: "comparator \<Rightarrow> comparator \<Rightarrow> bool" where
  "comparatorIntersects this other =
     (if fst this = OpEQ then comparatorTest other (snd this)
      else if fst other = OpEQ then comparatorTest this (snd other)
      else
        (let increasing = (\<lambda>c. fst c = OpGE \<or> fst c = OpGT);
             decreasing = (\<lambda>c. fst c = OpLE \<or> fst c = OpLT);
             inclusive = (\<lambda>c. fst c = OpGE \<or> fst c = OpLE);
             sameDirectionIncreasing = (increasing this \<and> increasing other);
             sameDirectionDecreasing = (decreasing this \<and> decreasing other);
             sameSemVer = (snd this = snd other);
             differentDirectionsInclusive = (inclusive this \<and> inclusive other);
             oppositeDirectionsLessThan =
               (semverLess (snd this) (snd other) \<and> increasing this \<and> decreasing other);
             oppositeDirectionsGreaterThan =
               (semverLess (snd other) (snd this) \<and> decreasing this \<and> increasing other)
         in sameDirectionIncreasing \<or> sameDirectionDecreasing
            \<or> (sameSemVer \<and> differentDirectionsInclusive)
            \<or> oppositeDirectionsLessThan \<or> oppositeDirectionsGreaterThan))"

text \<open>
  \<open>Range.intersects\<close>: some comparator set of this range is such that each of its
  comparators intersects every comparator of some comparator set of the other range
  (\<open>some\<close>, \<open>every\<close>, \<open>some\<close>, \<open>every\<close>, in this order).
\<close>

definition rangeIntersects :: "semverRange \<Rightarrow> semverRange \<Rightarrow> bool" where
  "rangeIntersects this other =
     list_ex (\<lambda>thisComparators.
       list_all (\<lambda>thisComparator.
         list_ex (\<lambda>rangeComparators.
           list_all (\<lambda>rangeComparator.
             comparatorIntersects thisComparator rangeComparator) rangeComparators)
           other) thisComparators) this"

text \<open>
  \<open>semver.intersects(r1, r2)\<close> builds a \<open>Range\<close> from each argument and throws a
  \<open>TypeError\<close> when one of them is \<open>null\<close> or not a range. The first argument is the
  result of \<open>validRange\<close>, the second the string \<open>`<${threshold}`\<close>.
\<close>

definition intersects ::
  "(string \<Rightarrow> semverRange option) \<Rightarrow> semverRange option \<Rightarrow> string \<Rightarrow> error + bool" where
  "intersects otherGrammar r1 r2 =
     (case r1 of
        None \<Rightarrow> Inl TypeError
      | Some a \<Rightarrow>
          (case validRange otherGrammar r2 of
             None \<Rightarrow> Inl TypeError
           | Some b \<Rightarrow> Inr (rangeIntersects a b)))"


section \<open>Feature catalog and options (lib/rules/no-unsupported-ecma-features.js)\<close>

text \<open>
  The catalog \<open>features\<close> is required from \<open>lib/util/ecma-features\<close>, a file that is not
  among the sources; it is a parameter of the model, an association list from feature key
  to descriptor, in the order of \<open>Object.keys\<close>. A descriptor has the fields the rule
  reads: \<open>name\<close>, \<open>singular\<close> (read through \<open>Boolean\<close>, so an absent flag is \<open>False\<close>),
  \<open>node\<close> and \<open>alias\<close>. The field \<open>node\<close> is a version string, or \<open>null\<close>, or an object
  with the fields \<open>sloppy\<close> and \<open>strict\<close>, each a version string or absent.
\<close>

datatype nodeField =
  NodeVersion string
| NodeNull
| NodeObject (sloppy: "string option") (strict: "string option")

datatype feature =
  Feature (featureName: string) (featureSingular: bool) (featureNode: nodeField)
    (featureAlias: "string list")

type_synonym catalog = "(string \<times> feature) list"

definition OPTIONS :: "catalog \<Rightarrow> string list" where
  "OPTIONS features = map fst features"

text \<open>
  A number of the options is looked up in \<open>VERSION_MAP\<close> and never computed with. A finite
  number is represented by the rational its shortest decimal literal denotes (the literal
  \<open>6.5\<close> is \<open>65 / 10\<close>), so that two numbers are the same key of the \<open>Map\<close> exactly when
  they are equal here; \<open>NaN\<close> and the infinities are numbers too and are keys of no entry.
\<close>

datatype jsnumber = Finite rat | NaN | PlusInfinity | MinusInfinity

definition VERSION_MAP :: "(jsnumber \<times> string) list" where
  "VERSION_MAP =
     [(Finite (1 / 10), ''0.10.0''),
      (Finite (12 / 100), ''0.12.0''),
      (Finite 4, ''4.0.0''),
      (Finite 5, ''5.0.0''),
      (Finite 6, ''6.0.0''),
      (Finite (65 / 10), ''6.5.0''),
      (Finite 7, ''7.0.0''),
      (Finite (76 / 10), ''7.6.0''),
      (Finite 8, ''8.0.0''),
      (Finite (83 / 10), ''8.3.0''),
      (Finite 9, ''9.0.0''),
      (Finite 10, ''10.0.0'')]"

definition DEFAULT_VERSION :: string where
  "DEFAULT_VERSION = ''6.0.0''"

text \<open>
  The option value, of the types the doc comment of \<open>parseOptions\<close> lists: \<open>undefined\<close>,
  a number, a string, or an object with the optional fields \<open>version\<close> (a number or a
  string) and \<open>ignores\<close>.
\<close>

datatype versionField = VersionNumber jsnumber | VersionString string | VersionUndefined

datatype options =
  OptionsUndefined
| OptionsNumber jsnumber
| OptionsString string
| OptionsObject versionField "string list option"

text \<open>
  The value \<open>parseOptions\<close> returns: the version and the support table \<open>features\<close>, an
  object without prototype that maps every key of the catalog to its entry.
\<close>

record support =
  name :: string
  singular :: bool
  supported :: bool
  supportedInStrict :: bool

record supportInfo =
  version :: string
  features :: "string \<rightharpoonup> support"

text \<open>
  \<open>isIgnored(key, ignores)\<close>. Reading \<open>features[key].alias\<close> throws when the key is not
  in the catalog; the rule calls it with keys of the catalog only.
\<close>

definition isIgnored :: "catalog \<Rightarrow> string \<Rightarrow> string list \<Rightarrow> error + bool" where
  "isIgnored catalog key ignores =
     (if key \<in> set ignores then Inr True
      else (case map_of catalog key of
              None \<Rightarrow> Inl TypeError
            | Some feature \<Rightarrow>
                Inr (list_ex (\<lambda>alias. alias \<in> set ignores) (featureAlias feature))))"

text \<open>
  The first part of \<open>parseOptions\<close>: the requested version (\<open>None\<close> is \<open>null\<close> or
  \<open>undefined\<close>) and the ignore list, by the type of the option.
\<close>

definition optionsVersion :: "options \<Rightarrow> string option" where
  "optionsVersion options =
     (case options of
        OptionsNumber n \<Rightarrow> map_of VERSION_MAP n
      | OptionsString s \<Rightarrow> Some s
      | OptionsObject v i \<Rightarrow>
          (case v of
             VersionNumber n \<Rightarrow> map_of VERSION_MAP n
           | VersionString s \<Rightarrow> Some s
           | VersionUndefined \<Rightarrow> None)
      | OptionsUndefined \<Rightarrow> None)"

definition optionsIgnores :: "options \<Rightarrow> string list" where
  "optionsIgnores options =
     (case options of
        OptionsObject v i \<Rightarrow> (case i of Some ignores \<Rightarrow> ignores | None \<Rightarrow> [])
      | _ \<Rightarrow> [])"

text \<open>
  \<open>version ? `>=${version}` : defaultVersion\<close> and \<open>if (!version) version = defaultVersion\<close>:
  \<open>undefined\<close> and the empty string are falsy.
\<close>

definition rangeSource :: "string option \<Rightarrow> string \<Rightarrow> string" where
  "rangeSource requested defaultVersion =
     (case requested of
        None \<Rightarrow> defaultVersion
      | Some v \<Rightarrow> if v = [] then defaultVersion else ''>='' @ v)"

definition effectiveVersion :: "string option \<Rightarrow> string \<Rightarrow> string" where
  "effectiveVersion requested defaultVersion =
     (case requested of
        None \<Rightarrow> defaultVersion
      | Some v \<Rightarrow> if v = [] then defaultVersion else v)"

text \<open>
  \<open>!semver.intersects(range, `<${v}`)\<close>, and the same guarded by \<open>!= null\<close> for the
  threshold of one mode.
\<close>

definition notBelow ::
  "(string \<Rightarrow> semverRange option) \<Rightarrow> semverRange option \<Rightarrow> string \<Rightarrow> error + bool" where
  "notBelow otherGrammar rng v =
     andThen (intersects otherGrammar rng (''<'' @ v)) (\<lambda>b. Inr (\<not> b))"

definition modeSupport ::
  "(string \<Rightarrow> semverRange option) \<Rightarrow> semverRange option \<Rightarrow> string option \<Rightarrow> error + bool" where
  "modeSupport otherGrammar rng threshold =
     (case threshold of
        None \<Rightarrow> Inr False
      | Some v \<Rightarrow> notBelow otherGrammar rng v)"

text \<open>
  The callback of \<open>OPTIONS.reduce\<close>: the entry of one key. \<open>reduceFeatures\<close> is the
  reduction itself, from left to right, and stops at the first exception.
\<close>

definition featureSupport ::
  "(string \<Rightarrow> semverRange option) \<Rightarrow> catalog \<Rightarrow> semverRange option \<Rightarrow> string list
     \<Rightarrow> string \<Rightarrow> error + support" where
  "featureSupport otherGrammar catalog rng ignores key =
     (case map_of catalog key of
        None \<Rightarrow> Inl TypeError
      | Some feature \<Rightarrow>
          andThen (isIgnored catalog key ignores) (\<lambda>ignored.
            if ignored then
              Inr \<lparr>name = featureName feature, singular = featureSingular feature,
                   supported = True, supportedInStrict = True\<rparr>
            else
              (case featureNode feature of
                 NodeVersion v \<Rightarrow>
                   andThen (notBelow otherGrammar rng v) (\<lambda>s1.
                   andThen (notBelow otherGrammar rng v) (\<lambda>s2.
                     Inr \<lparr>name = featureName feature, singular = featureSingular feature,
                          supported = s1, supportedInStrict = s2\<rparr>))
               | NodeNull \<Rightarrow>
                   Inr \<lparr>name = featureName feature, singular = featureSingular feature,
                        supported = False, supportedInStrict = False\<rparr>
               | NodeObject sl st \<Rightarrow>
                   andThen (modeSupport otherGrammar rng sl) (\<lambda>s1.
                   andThen (modeSupport otherGrammar rng st) (\<lambda>s2.
                     Inr \<lparr>name = featureName feature, singular = featureSingular feature,
                          supported = s1, supportedInStrict = s2\<rparr>)))))"

fun reduceFeatures ::
  "(string \<Rightarrow> semverRange option) \<Rightarrow> catalog \<Rightarrow> semverRange option \<Rightarrow> string list
     \<Rightarrow> string list \<Rightarrow> (string \<rightharpoonup> support) \<Rightarrow> error + (string \<rightharpoonup> support)" where
  "reduceFeatures otherGrammar catalog rng ignores [] retv = Inr retv"
| "reduceFeatures otherGrammar catalog rng ignores (key # keys) retv =
     andThen (featureSupport otherGrammar catalog rng ignores key) (\<lambda>entry.
       reduceFeatures otherGrammar catalog rng ignores keys (retv(key \<mapsto> entry)))"

definition parseOptions ::
  "(string \<Rightarrow> semverRange option) \<Rightarrow> catalog \<Rightarrow> options \<Rightarrow> string \<Rightarrow> error + supportInfo" where
  "parseOptions otherGrammar catalog options defaultVersion =
     (let requested = optionsVersion options;
          ignores = optionsIgnores options;
          rng = validRange otherGrammar (rangeSource requested defaultVersion)
      in andThen
           (reduceFeatures otherGrammar catalog rng ignores (OPTIONS catalog) Map.empty)
           (\<lambda>table.
              Inr \<lparr>version = effectiveVersion requested defaultVersion, features = table\<rparr>))"

text \<open>
  A catalog is well formed when every threshold it holds is accepted by the range parser
  behind the prefix \<open><\<close>.
\<close>

definition thresholdParses :: "(string \<Rightarrow> semverRange option) \<Rightarrow> string option \<Rightarrow> bool" where
  "thresholdParses otherGrammar threshold =
     (case threshold of
        None \<Rightarrow> True
      | Some v \<Rightarrow> validRange otherGrammar (''<'' @ v) \<noteq> None)"

definition thresholdsParse :: "(string \<Rightarrow> semverRange option) \<Rightarrow> catalog \<Rightarrow> bool" where
  "thresholdsParse otherGrammar catalog =
     list_all (\<lambda>entry.
       (case featureNode (snd entry) of
          NodeVersion v \<Rightarrow> thresholdParses otherGrammar (Some v)
        | NodeNull \<Rightarrow> True
        | NodeObject sl st \<Rightarrow>
            thresholdParses otherGrammar sl \<and> thresholdParses otherGrammar st)) catalog"

text \<open>
  Sample catalogs for the concrete runs below. The thresholds of \<open>classes\<close>,
  \<open>asyncAwait\<close> and \<open>modules\<close> are those of the numeric example of the specification; the
  display names and aliases are illustrative.
\<close>

definition sampleCatalog :: catalog where
  "sampleCatalog =
     [(''classes'',
         Feature ''classes'' False (NodeObject (Some ''6.0.0'') (Some ''6.0.0'')) [''syntax'']),
      (''asyncAwait'',
         Feature ''async functions'' False (NodeVersion ''7.6.0'') [''syntax'', ''async'']),
      (''modules'',
         Feature ''import and export declarations'' False (NodeObject (Some ''8.5.0'') None) [])]"

section \<open>Nodes, diagnostics and the report function\<close>

text \<open>
  Of a node the rule reads \<open>type\<close>, \<open>range\<close>, and of its parent \<open>type\<close> and whether
  \<open>parent.superClass\<close> is the node itself (a comparison of references, kept as a flag).
  A diagnostic is the descriptor passed to \<open>context.report\<close>: the node, the message
  template and the data for its placeholders.
\<close>

record parentNode =
  parentType :: string
  superClassIsNode :: bool

record astNode =
  nodeType :: string
  nodeRange :: "nat \<times> nat"
  nodeParent :: "parentNode option"

record diagnostic =
  node :: astNode
  message :: string
  data :: "(string \<times> string) list"

text \<open>
  How a call that reports ends: it returns, it throws, or it never returns. The diagnostics
  it passed to \<open>context.report\<close> before are kept in each case.
\<close>

datatype outcome = Returned | Thrown error | Diverged

text \<open>
  The linter renders a message by replacing each placeholder \<open>{{term}}\<close> with
  \<open>data[term]\<close>, and leaves a placeholder without data as it is; replaced text is not
  scanned again. \<open>interp\<close> scans the template from left to right: plain text, one brace
  seen, inside a placeholder, one closing brace seen. (Whitespace inside the braces, which
  the linter trims, does not occur in the templates of the rule.)
\<close>

datatype scan = Text | Brace | Term string | Close string

fun interp :: "(string \<times> string) list \<Rightarrow> scan \<Rightarrow> string \<Rightarrow> string" where
  "interp d Text [] = []"
| "interp d Text (c # cs) =
     (if c = CHR ''{'' then interp d Brace cs else c # interp d Text cs)"
| "interp d Brace [] = ''{''"
| "interp d Brace (c # cs) =
     (if c = CHR ''{'' then interp d (Term []) cs else CHR ''{'' # c # interp d Text cs)"
| "interp d (Term t) [] = ''{{'' @ t"
| "interp d (Term t) (c # cs) =
     (if c = CHR ''}'' then interp d (Close t) cs
      else if c = CHR ''{'' then ''{{'' @ t @ interp d Brace cs
      else interp d (Term (t @ [c])) cs)"
| "interp d (Close t) [] = ''{{'' @ t @ ''}''"
| "interp d (Close t) (c # cs) =
     (if c = CHR ''}'' then
        (if t = [] then ''{{}}''
         else (case map_of d t of Some v \<Rightarrow> v | None \<Rightarrow> ''{{'' @ t @ ''}}''))
        @ interp d Text cs
      else if c = CHR ''{'' then ''{{'' @ t @ ''}'' @ interp d Brace cs
      else ''{{'' @ t @ ''}'' @ c # interp d Text cs)"

definition interpolate :: "string \<Rightarrow> (string \<times> string) list \<Rightarrow> string" where
  "interpolate text d = interp d Text text"

definition rendered :: "diagnostic \<Rightarrow> string" where
  "rendered descriptor = interpolate (message descriptor) (data descriptor)"

text \<open>
  \<open>isStrict(node)\<close>: the strictness of the scope that \<open>getInnermostScope\<close> finds from
  \<open>context.getScope()\<close>, here \<open>currentScope\<close>, at the start of the node; \<open>None\<close> when
  that call does not return.
\<close>

definition isStrict :: "scope \<Rightarrow> astNode \<Rightarrow> bool option" where
  "isStrict currentScope nd =
     map_option scopeStrict (getInnermostScope currentScope (fst (nodeRange nd)))"

definition be :: "bool \<Rightarrow> string" where
  "be sing = (if sing then ''is'' else ''are'')"

text \<open>
  \<open>report(node, key)\<close>: the diagnostics it passes to \<open>context.report\<close> and how it ends.
  Reading \<open>feature.supported\<close> throws when the table has no entry for the key.
\<close>

definition report :: "supportInfo \<Rightarrow> scope \<Rightarrow> astNode \<Rightarrow> string \<Rightarrow> diagnostic list \<times> outcome" where
  "report supportInfo currentScope nd key =
     (case features supportInfo key of
        None \<Rightarrow> ([], Thrown TypeError)
      | Some feature \<Rightarrow>
          if supported feature then ([], Returned)
          else if \<not> supportedInStrict feature then
            ([\<lparr>node = nd,
               message = ''{{feature}} {{be}} not supported yet on Node {{version}}.'',
               data = [(''feature'', name feature),
                       (''be'', be (singular feature)),
                       (''version'', version supportInfo)]\<rparr>], Returned)
          else
            (case isStrict currentScope nd of
               None \<Rightarrow> ([], Diverged)
             | Some strictMode \<Rightarrow>
                 if \<not> strictMode then
                   ([\<lparr>node = nd,
                      message = ''{{feature}} {{be}} not supported yet on Node {{version}}.'',
                      data = [(''feature'', name feature @ '' in non-strict mode''),
                              (''be'', be (singular feature)),
                              (''version'', version supportInfo)]\<rparr>], Returned)
                 else ([], Returned)))"

section \<open>The end-of-traversal pass\<close>

text \<open>
  The handler \<open>Program:exit\<close> consumes the match events of the reference tracer, which
  is not among the sources: the events, each a node and a path, are the input of the model,
  in the order the tracer yields them.
\<close>

datatype event = Event (eventNode: astNode) (eventPath: "string list")

definition SUBCLASSING_TEST_TARGETS :: "string list" where
  "SUBCLASSING_TEST_TARGETS =
     [''Array'', ''RegExp'', ''Function'', ''Promise'', ''Boolean'', ''Number'', ''String'',
      ''Map'', ''Set'']"

definition CLASS_TYPE :: "string \<Rightarrow> bool" where
  "CLASS_TYPE t = (t = ''ClassDeclaration'' \<or> t = ''ClassExpression'')"

text \<open>
  \<open>path.join(".")\<close>; the decimal form of an offset in a template literal (offsets are
  far below the \<open>1e21\<close> from which a number prints with an exponent); and the key
  \<open>`${path[0]}@${node.range[0]}`\<close>, in which an empty path gives \<open>undefined\<close>.
\<close>

fun join :: "string \<Rightarrow> string list \<Rightarrow> string" where
  "join sep [] = []"
| "join sep [x] = x"
| "join sep (x # y # ys) = x @ sep @ join sep (y # ys)"

definition digitChar :: "nat \<Rightarrow> char" where
  "digitChar d = ''0123456789'' ! d"

fun decimal :: "nat \<Rightarrow> string" where
  "decimal n = (if n < 10 then [digitChar n] else decimal (n div 10) @ [digitChar (n mod 10)])"

definition pathRoot :: "string list \<Rightarrow> string" where
  "pathRoot p = (case p of [] \<Rightarrow> ''undefined'' | r # rest \<Rightarrow> r)"

definition ignoreKeyOf :: "event \<Rightarrow> string" where
  "ignoreKeyOf e =
     pathRoot (eventPath e) @ ''@'' @ decimal (fst (nodeRange (eventNode e)))"

text \<open>
  The body of the loop calls \<open>report\<close> at two places: in the first \<open>if\<close>, for a path
  that is a key of the catalog, and in the second, for a tracked global used as the
  superclass of a class. Each emitted diagnostic is recorded with the event and the place
  that produced it; the diagnostics themselves are the third components.
\<close>

datatype reportSite = FeatureReport | SubclassReport

type_synonym emission = "event \<times> reportSite \<times> diagnostic"

definition tagged :: "event \<Rightarrow> reportSite \<Rightarrow> diagnostic list \<Rightarrow> emission list" where
  "tagged e site ds = map (\<lambda>d. (e, site, d)) ds"

text \<open>
  The condition of the second \<open>if\<close>. Reading \<open>node.parent.type\<close> throws for a node
  without parent.
\<close>

definition subclassTest :: "astNode \<Rightarrow> string \<Rightarrow> error + bool" where
  "subclassTest nd key =
     (if key \<in> set SUBCLASSING_TEST_TARGETS then
        (case nodeParent nd of
           None \<Rightarrow> Inl TypeError
         | Some p \<Rightarrow> Inr (CLASS_TYPE (parentType p) \<and> superClassIsNode p))
      else Inr False)"

text \<open>
  One round of the loop, from the set \<open>ignore\<close> before it to the set after it.
  \<open>key in features\<close> is membership among the keys of the catalog itself (the paths of
  \<open>GLOBALS\<close> name no property an object inherits). The round ends early when a call of
  \<open>report\<close> throws or does not return.
\<close>

definition eventStep ::
  "catalog \<Rightarrow> supportInfo \<Rightarrow> scope \<Rightarrow> string list \<Rightarrow> event
     \<Rightarrow> emission list \<times> outcome \<times> string list" where
  "eventStep catalog supportInfo currentScope ignore e =
     (let nd = eventNode e;
          key = join ''.'' (eventPath e);
          ignoreKey = ignoreKeyOf e;
          fresh = (key \<in> set (OPTIONS catalog) \<and> ignoreKey \<notin> set ignore);
          ignore' = (if fresh then ignoreKey # ignore else ignore);
          r1 = (if fresh then report supportInfo currentScope nd key else ([], Returned))
      in if snd r1 \<noteq> Returned then (tagged e FeatureReport (fst r1), snd r1, ignore')
         else
           (case subclassTest nd key of
              Inl err \<Rightarrow> (tagged e FeatureReport (fst r1), Thrown err, ignore')
            | Inr False \<Rightarrow> (tagged e FeatureReport (fst r1), Returned, ignore')
            | Inr True \<Rightarrow>
                (let r2 = report supportInfo currentScope nd (''extends'' @ key)
                 in (tagged e FeatureReport (fst r1) @ tagged e SubclassReport (fst r2),
                     snd r2, ignore'))))"

fun exitLoop ::
  "catalog \<Rightarrow> supportInfo \<Rightarrow> scope \<Rightarrow> event list \<Rightarrow> string list
     \<Rightarrow> emission list \<times> outcome" where
  "exitLoop catalog supportInfo currentScope [] ignore = ([], Returned)"
| "exitLoop catalog supportInfo currentScope (e # es) ignore =
     (case eventStep catalog supportInfo currentScope ignore e of
        (emitted, out, ignore') \<Rightarrow>
          if out = Returned then
            (case exitLoop catalog supportInfo currentScope es ignore' of
               (rest, out') \<Rightarrow> (emitted @ rest, out'))
          else (emitted, out))"

text \<open>The handler: the events reversed, and an empty \<open>ignore\<close> set.\<close>

definition programExit ::
  "catalog \<Rightarrow> supportInfo \<Rightarrow> scope \<Rightarrow> event list \<Rightarrow> emission list \<times> outcome" where
  "programExit catalog supportInfo currentScope events =
     exitLoop catalog supportInfo currentScope (rev events) []"





definition featureReports :: "string \<Rightarrow> emission list \<Rightarrow> emission list" where
  "featureReports ignoreKey emitted =
     filter (\<lambda>em. fst (snd em) = FeatureReport \<and> ignoreKeyOf (fst em) = ignoreKey) emitted"

section \<open>Visitor merge\<close>

text \<open>
  A handler is a function of the node with effects on a state \<open>'s\<close>; it may throw, and
  its return value is discarded by its callers. \<open>Plain\<close> is a handler as a rule wrote it,
  a function without the property \<open>_fs\<close>. \<open>Mux fs\<close> is the function \<open>merge\<close> creates,
  bound to the array \<open>fs\<close> that is also its property \<open>_fs\<close>; the array is reachable
  through that function only, so the function is represented by the current content of
  the array, and \<open>_fs.push\<close> by appending to it. Calling it runs
  \<open>for (const f of this) f(node)\<close>, which an exception leaves. Visitors are values: the
  two arguments of \<open>merge\<close> are different objects.
\<close>

datatype ('n, 's) handler =
  Plain "'n \<Rightarrow> 's \<Rightarrow> error + 's"
| Mux "('n, 's) handler list"

fun call :: "('n, 's) handler \<Rightarrow> 'n \<Rightarrow> 's \<Rightarrow> error + 's"
  and callEach :: "('n, 's) handler list \<Rightarrow> 'n \<Rightarrow> 's \<Rightarrow> error + 's" where
  "call (Plain f) nd s = f nd s"
| "call (Mux fs) nd s = callEach fs nd s"
| "callEach [] nd s = Inr s"
| "callEach (f # fs) nd s =
     (case call f nd s of Inl e \<Rightarrow> Inl e | Inr s' \<Rightarrow> callEach fs nd s')"

text \<open>
  A visitor is an object from node-type keys to handlers, its keys in insertion order and
  distinct. \<open>assign\<close> is \<open>x[key] = v\<close>; \<open>mergeKey\<close> is one round of the loop of \<open>merge\<close>
  over \<open>Object.keys(y)\<close>; \<open>visit\<close> is what the traversal does at a node of type \<open>key\<close>:
  it calls the handler when the visitor has one.
\<close>

type_synonym ('n, 's) visitor = "(string \<times> ('n, 's) handler) list"

fun assign :: "('n, 's) visitor \<Rightarrow> string \<Rightarrow> ('n, 's) handler \<Rightarrow> ('n, 's) visitor" where
  "assign [] key v = [(key, v)]"
| "assign ((k, w) # x) key v = (if k = key then (k, v) # x else (k, w) # assign x key v)"

definition mergeKey :: "('n, 's) visitor \<Rightarrow> string \<times> ('n, 's) handler \<Rightarrow> ('n, 's) visitor" where
  "mergeKey x entry =
     (case entry of (key, yk) \<Rightarrow>
        (case map_of x key of
           Some (Plain f) \<Rightarrow> assign x key (Mux [Plain f, yk])
         | Some (Mux fs) \<Rightarrow> assign x key (Mux (fs @ [yk]))
         | None \<Rightarrow> assign x key yk))"

definition merge :: "('n, 's) visitor \<Rightarrow> ('n, 's) visitor \<Rightarrow> ('n, 's) visitor" where
  "merge x y = foldl mergeKey x y"

definition visit :: "('n, 's) visitor \<Rightarrow> string \<Rightarrow> 'n \<Rightarrow> 's \<Rightarrow> error + 's" where
  "visit v key nd s = (case map_of v key of None \<Rightarrow> Inr s | Some h \<Rightarrow> call h nd s)"

section \<open>Properties of the scope locator\<close>

lemma innermostAmong_find:
  "innermostAmong cs location =
     map_option (\<lambda>c. innermost c location) (find (containsLocation location) cs)"
  by (induction cs) auto

lemma innermost_unfold:
  "innermost scope location =
     (case find (containsLocation location) (childScopes scope) of
        None \<Rightarrow> scope | Some c \<Rightarrow> innermost c location)"
  by (cases scope) (simp add: innermostAmong_find split: option.splits)

declare innermost.simps [simp del]

lemma innermost_None:
  "find (containsLocation location) (childScopes scope) = None \<Longrightarrow>
     innermost scope location = scope"
  by (simp add: innermost_unfold [of scope])

lemma innermost_Some:
  "find (containsLocation location) (childScopes scope) = Some c \<Longrightarrow>
     innermost scope location = innermost c location"
  by (simp add: innermost_unfold [of scope])

text \<open>Whenever the code returns, it returns the scope of the specification, a leaf.\<close>

lemma getInnermostScope_returns_leaf:
  assumes "getInnermostScope scope location = Some result"
  shows "childScopes result = [] \<and> result = innermost scope location"
proof (rule getInnermostScope.raw_induct
    [where P = "\<lambda>s loc res. childScopes res = [] \<and> res = innermost s loc", OF _ assms])
  fix f :: "scope \<Rightarrow> nat \<Rightarrow> scope option" and s loc res
  assume IH: "\<And>s' loc' res'. f s' loc' = Some res' \<Longrightarrow>
                 childScopes res' = [] \<and> res' = innermost s' loc'"
  assume eq: "(if childScopes s = [] then Some s
               else (case find (containsLocation loc) (childScopes s) of
                       None \<Rightarrow> f s loc
                     | Some childScope \<Rightarrow> f childScope loc)) = Some res"
  show "childScopes res = [] \<and> res = innermost s loc"
  proof (cases "childScopes s = []")
    case True
    with eq have "res = s" by simp
    moreover from True have "innermost s loc = s" by (simp add: innermost_None)
    ultimately show ?thesis using True by simp
  next
    case False
    show ?thesis
    proof (cases "find (containsLocation loc) (childScopes s)")
      case None
      with False eq have "f s loc = Some res" by simp
      then show ?thesis by (rule IH)
    next
      case (Some c)
      with False eq have "f c loc = Some res" by simp
      then have "childScopes res = [] \<and> res = innermost c loc" by (rule IH)
      with innermost_Some [OF Some] show ?thesis by auto
    qed
  qed
qed

text \<open>The code returns as soon as the scope of the specification is a leaf.\<close>

lemma getInnermostScope_leaf_returns:
  "childScopes (innermost scope location) = [] \<Longrightarrow>
     getInnermostScope scope location = Some (innermost scope location)"
proof (induction scope)
  case (Scope r st cs)
  show ?case
  proof (cases "cs = []")
    case True
    then show ?thesis by (simp add: getInnermostScope.simps innermost_None)
  next
    case False
    show ?thesis
    proof (cases "find (containsLocation location) cs")
      case None
      then have "innermost (Scope r st cs) location = Scope r st cs"
        by (simp add: innermost_None)
      with Scope.prems False show ?thesis by simp
    next
      case (Some c)
      then have mem: "c \<in> set cs" by (auto simp: find_Some_iff)
      from Some have inn: "innermost (Scope r st cs) location = innermost c location"
        by (simp add: innermost_Some)
      with Scope.prems have "childScopes (innermost c location) = []" by simp
      with Scope.IH mem
      have "getInnermostScope c location = Some (innermost c location)" by blast
      with Some False show ?thesis
        unfolding inn by (simp add: getInnermostScope.simps [of "Scope r st cs"])
    qed
  qed
qed

text \<open>
  Together: the call returns exactly when the descent of the specification ends in a
  scope without children, and loops forever when it ends in a scope that has children
  none of which contains the location.
\<close>

lemma getInnermostScope_eq:
  "getInnermostScope scope location =
     (if childScopes (innermost scope location) = [] then Some (innermost scope location)
      else None)"
proof (cases "childScopes (innermost scope location) = []")
  case True
  then show ?thesis by (simp add: getInnermostScope_leaf_returns)
next
  case False
  have "getInnermostScope scope location = None"
  proof (cases "getInnermostScope scope location")
    case None
    then show ?thesis .
  next
    case (Some res)
    from getInnermostScope_returns_leaf [OF Some] have "childScopes res = []"
      and "res = innermost scope location" by blast+
    with False show ?thesis by auto
  qed
  with False show ?thesis by simp
qed

text \<open>
  The scope of the specification has the two properties the specification asks for: its
  range contains the location (when the root's does) and none of its children contains it.
\<close>

lemma innermost_no_child:
  "find (containsLocation location) (childScopes (innermost scope location)) = None"
proof (induction scope)
  case (Scope r st cs)
  show ?case
  proof (cases "find (containsLocation location) cs")
    case None
    then have "innermost (Scope r st cs) location = Scope r st cs"
      by (simp add: innermost_None)
    with None show ?thesis by simp
  next
    case (Some c)
    then have "c \<in> set cs" by (auto simp: find_Some_iff)
    moreover from Some have "innermost (Scope r st cs) location = innermost c location"
      by (simp add: innermost_Some)
    ultimately show ?thesis using Scope.IH by simp
  qed
qed

lemma innermost_contains:
  "containsLocation location scope \<Longrightarrow> containsLocation location (innermost scope location)"
proof (induction scope)
  case (Scope r st cs)
  show ?case
  proof (cases "find (containsLocation location) cs")
    case None
    then have "innermost (Scope r st cs) location = Scope r st cs"
      by (simp add: innermost_None)
    with Scope.prems show ?thesis by simp
  next
    case (Some c)
    then have "c \<in> set cs" and "containsLocation location c"
      by (auto simp: find_Some_iff)
    moreover from Some have "innermost (Scope r st cs) location = innermost c location"
      by (simp add: innermost_Some)
    ultimately show ?thesis using Scope.IH by simp
  qed
qed

text \<open>
  C1. The claim: on every finite, well-nested scope tree and every offset inside the
  root's range \<open>getInnermostScope\<close> terminates, and it returns the current scope when
  that scope has children none of which contains the offset. The code does not: on the
  well-nested tree of a program \<open>[0, 10)\<close> with one function scope \<open>[2, 4)\<close> and the
  offset 5, which lies in the root and in no child, the loop never ends.
\<close>

theorem getInnermostScope_loops_on_uncovered_offset:
  "strictTree (Scope (0, 10) False [Scope (2, 4) False []])
   \<and> containsLocation 5 (Scope (0, 10) False [Scope (2, 4) False []])
   \<and> childScopes (Scope (0, 10) False [Scope (2, 4) False []]) \<noteq> []
   \<and> find (containsLocation 5) (childScopes (Scope (0, 10) False [Scope (2, 4) False []])) = None
   \<and> getInnermostScope (Scope (0, 10) False [Scope (2, 4) False []]) 5 = None"
  by (simp add: getInnermostScope_eq containsLocation_def innermost.simps)

text \<open>
  C9. The claim: for every scope tree and every offset inside the root's range
  \<open>getInnermostScope\<close> returns a scope whose range contains the offset and none of whose
  children contains it. On the tree of a program \<open>[0, 30)\<close> holding a function
  \<open>[5, 20)\<close> that holds a function \<open>[8, 12)\<close>, and the offset 15, that scope exists (it
  is the outer function) but the code returns nothing.
\<close>

theorem getInnermostScope_returns_no_scope:
  "strictTree (Scope (0, 30) False [Scope (5, 20) True [Scope (8, 12) True []]])
   \<and> containsLocation 15 (Scope (0, 30) False [Scope (5, 20) True [Scope (8, 12) True []]])
   \<and> innermost (Scope (0, 30) False [Scope (5, 20) True [Scope (8, 12) True []]]) 15
       = Scope (5, 20) True [Scope (8, 12) True []]
   \<and> containsLocation 15 (Scope (5, 20) True [Scope (8, 12) True []])
   \<and> find (containsLocation 15) (childScopes (Scope (5, 20) True [Scope (8, 12) True []])) = None
   \<and> (\<forall>result. getInnermostScope
          (Scope (0, 30) False [Scope (5, 20) True [Scope (8, 12) True []]]) 15 \<noteq> Some result)"
  by (simp add: getInnermostScope_eq containsLocation_def innermost.simps)

section \<open>Properties of the version resolver\<close>

lemma andThen_Inl [simp]: "andThen (Inl e) k = Inl e"
  by (simp add: andThen_def)

lemma andThen_Inr [simp]: "andThen (Inr x) k = k x"
  by (simp add: andThen_def)

lemma andThen_eq_Inr: "andThen r k = Inr y \<longleftrightarrow> (\<exists>x. r = Inr x \<and> k x = Inr y)"
  by (cases r) simp_all

lemma map_of_in_OPTIONS: "map_of catalog key = Some f \<Longrightarrow> key \<in> set (OPTIONS catalog)"
  by (auto simp: OPTIONS_def dest: map_of_SomeD intro: rev_image_eqI)

lemma reduceFeatures_Inr:
  assumes "reduceFeatures g catalog r ignores keys retv = Inr table"
  shows "(key \<in> set keys \<longrightarrow>
            (\<exists>entry. featureSupport g catalog r ignores key = Inr entry \<and> table key = Some entry))
         \<and> (key \<notin> set keys \<longrightarrow> table key = retv key)"
  using assms
proof (induction keys arbitrary: retv)
  case Nil
  then show ?case by simp
next
  case (Cons k keys)
  from Cons.prems obtain entry where
    e: "featureSupport g catalog r ignores k = Inr entry" and
    rest: "reduceFeatures g catalog r ignores keys (retv(k \<mapsto> entry)) = Inr table"
    by (auto simp: andThen_eq_Inr)
  from Cons.IH [OF rest] e show ?case by auto
qed

lemma reduceFeatures_returns:
  assumes "\<And>key. key \<in> set keys \<Longrightarrow> \<exists>entry. featureSupport g catalog r ignores key = Inr entry"
  shows "\<exists>table. reduceFeatures g catalog r ignores keys retv = Inr table"
  using assms
proof (induction keys arbitrary: retv)
  case Nil
  then show ?case by simp
next
  case (Cons k keys)
  from Cons.prems [of k] obtain entry where
    e: "featureSupport g catalog r ignores k = Inr entry" by auto
  have "\<exists>table. reduceFeatures g catalog r ignores keys (retv(k \<mapsto> entry)) = Inr table"
    by (rule Cons.IH) (simp add: Cons.prems)
  with e show ?case by simp
qed

lemma parseOptions_Inr:
  assumes "parseOptions g catalog opts dv = Inr info"
  shows "version info = effectiveVersion (optionsVersion opts) dv"
    and "reduceFeatures g catalog (validRange g (rangeSource (optionsVersion opts) dv))
           (optionsIgnores opts) (OPTIONS catalog) Map.empty = Inr (features info)"
  using assms by (auto simp: parseOptions_def Let_def andThen_eq_Inr)

lemma parseOptions_entry:
  assumes "parseOptions g catalog opts dv = Inr info" and "map_of catalog key = Some f"
  shows "\<exists>entry. featureSupport g catalog (validRange g (rangeSource (optionsVersion opts) dv))
            (optionsIgnores opts) key = Inr entry \<and> features info key = Some entry"
  using reduceFeatures_Inr [OF parseOptions_Inr(2) [OF assms(1)], of key]
    map_of_in_OPTIONS [OF assms(2)] by simp

lemma isIgnored_iff:
  assumes "map_of catalog key = Some f"
  shows "isIgnored catalog key ignores =
           Inr (key \<in> set ignores \<or> (\<exists>alias \<in> set (featureAlias f). alias \<in> set ignores))"
  using assms by (auto simp: isIgnored_def list_ex_iff)

lemma OPTIONS_map_of:
  assumes "key \<in> set (OPTIONS catalog)"
  shows "\<exists>f. map_of catalog key = Some f \<and> (key, f) \<in> set catalog"
proof -
  from assms have "map_of catalog key \<noteq> None"
    by (simp add: OPTIONS_def map_of_eq_None_iff)
  then obtain f where "map_of catalog key = Some f" by blast
  then show ?thesis by (blast dest: map_of_SomeD)
qed

lemma modeSupport_total:
  "thresholdParses g th \<Longrightarrow> \<exists>b. modeSupport g (Some r) th = Inr b"
  by (cases th)
    (auto simp: thresholdParses_def modeSupport_def notBelow_def intersects_def)

lemma notBelow_total:
  "thresholdParses g (Some v) \<Longrightarrow> \<exists>b. notBelow g (Some r) v = Inr b"
  by (auto simp: thresholdParses_def notBelow_def intersects_def)

lemma featureSupport_total:
  assumes "thresholdsParse g catalog" and "key \<in> set (OPTIONS catalog)"
  shows "\<exists>entry. featureSupport g catalog (Some r) ignores key = Inr entry"
proof -
  from OPTIONS_map_of [OF assms(2)] obtain f where
    f: "map_of catalog key = Some f" and mem: "(key, f) \<in> set catalog" by blast
  from isIgnored_iff [OF f] obtain ig where ig: "isIgnored catalog key ignores = Inr ig"
    by blast
  show ?thesis
  proof (cases ig)
    case True
    with f ig show ?thesis by (simp add: featureSupport_def)
  next
    case False
    show ?thesis
    proof (cases "featureNode f")
      case (NodeVersion v)
      with assms(1) mem have "thresholdParses g (Some v)"
        by (auto simp: thresholdsParse_def list_all_iff)
      from notBelow_total [OF this, of r] obtain b where "notBelow g (Some r) v = Inr b"
        by blast
      with f ig False NodeVersion show ?thesis by (simp add: featureSupport_def)
    next
      case NodeNull
      with f ig False show ?thesis by (simp add: featureSupport_def)
    next
      case (NodeObject sl st)
      with assms(1) mem have "thresholdParses g sl" "thresholdParses g st"
        by (auto simp: thresholdsParse_def list_all_iff)
      from modeSupport_total [OF this(1), of r] modeSupport_total [OF this(2), of r]
      obtain b1 b2 where
        "modeSupport g (Some r) sl = Inr b1" "modeSupport g (Some r) st = Inr b2" by blast
      with f ig False NodeObject show ?thesis by (simp add: featureSupport_def)
    qed
  qed
qed

text \<open>The call returns whenever the range and the thresholds of the catalog are valid.\<close>

lemma parseOptions_returns:
  assumes "validRange g (rangeSource (optionsVersion opts) dv) = Some r"
    and "thresholdsParse g catalog"
  shows "\<exists>table. parseOptions g catalog opts dv =
           Inr \<lparr>version = effectiveVersion (optionsVersion opts) dv, features = table\<rparr>
         \<and> reduceFeatures g catalog (Some r) (optionsIgnores opts) (OPTIONS catalog) Map.empty
             = Inr table"
proof -
  have "\<exists>table. reduceFeatures g catalog (Some r) (optionsIgnores opts) (OPTIONS catalog)
          Map.empty = Inr table"
    by (rule reduceFeatures_returns) (rule featureSupport_total [OF assms(2)])
  then obtain table where "reduceFeatures g catalog (Some r) (optionsIgnores opts)
          (OPTIONS catalog) Map.empty = Inr table" by blast
  with assms(1) show ?thesis by (simp add: parseOptions_def Let_def)
qed

text \<open>The entry of an ignored key, in any table \<open>parseOptions\<close> returns.\<close>

lemma ignored_entry:
  assumes "parseOptions g catalog opts dv = Inr info"
    and "map_of catalog key = Some f"
    and "key \<in> set (optionsIgnores opts)
         \<or> (\<exists>alias \<in> set (featureAlias f). alias \<in> set (optionsIgnores opts))"
  shows "features info key =
           Some \<lparr>name = featureName f, singular = featureSingular f,
                 supported = True, supportedInStrict = True\<rparr>"
proof -
  from parseOptions_entry [OF assms(1,2)] obtain entry where
    e: "featureSupport g catalog (validRange g (rangeSource (optionsVersion opts) dv))
          (optionsIgnores opts) key = Inr entry" and t: "features info key = Some entry"
    by blast
  from assms(3) have "isIgnored catalog key (optionsIgnores opts) = Inr True"
    by (simp add: isIgnored_iff [OF assms(2)])
  with e assms(2) have "entry = \<lparr>name = featureName f, singular = featureSingular f,
                 supported = True, supportedInStrict = True\<rparr>"
    by (simp add: featureSupport_def)
  with t show ?thesis by simp
qed

text \<open>
  C2. Whatever the configured version, a feature of the catalog whose key is in the ignore
  set, or one of whose aliases is, has \<open>supported = true\<close> and
  \<open>supportedInStrict = true\<close> in the support table that \<open>parseOptions\<close> builds; and
  \<open>parseOptions\<close> does build the table whenever the range of the version is valid and
  the thresholds of the catalog are.
\<close>

theorem ignored_feature_is_supported:
  assumes "map_of catalog key = Some f"
    and "key \<in> set (optionsIgnores opts)
         \<or> (\<exists>alias \<in> set (featureAlias f). alias \<in> set (optionsIgnores opts))"
  shows "(\<forall>info. parseOptions g catalog opts dv = Inr info \<longrightarrow>
            features info key =
              Some \<lparr>name = featureName f, singular = featureSingular f,
                    supported = True, supportedInStrict = True\<rparr>)
         \<and> (\<forall>r. validRange g (rangeSource (optionsVersion opts) dv) = Some r
                  \<and> thresholdsParse g catalog \<longrightarrow>
                (\<exists>info. parseOptions g catalog opts dv = Inr info))"
proof (intro conjI allI impI)
  fix info assume "parseOptions g catalog opts dv = Inr info"
  then show "features info key =
      Some \<lparr>name = featureName f, singular = featureSingular f,
            supported = True, supportedInStrict = True\<rparr>"
    using assms by (rule ignored_entry)
next
  fix r assume "validRange g (rangeSource (optionsVersion opts) dv) = Some r
      \<and> thresholdsParse g catalog"
  then show "\<exists>info. parseOptions g catalog opts dv = Inr info"
    using parseOptions_returns [of g opts dv r catalog] by blast
qed

text \<open>The entry of a key with split thresholds, in any table \<open>parseOptions\<close> returns.\<close>

lemma absent_threshold_entry:
  assumes "parseOptions g catalog opts dv = Inr info"
    and "map_of catalog key = Some f"
    and "key \<notin> set (optionsIgnores opts)"
    and "\<not> (\<exists>alias \<in> set (featureAlias f). alias \<in> set (optionsIgnores opts))"
    and "featureNode f = NodeObject sl st"
  shows "\<exists>entry. features info key = Some entry
           \<and> (sl = None \<longrightarrow> \<not> supported entry)
           \<and> (st = None \<longrightarrow> \<not> supportedInStrict entry)"
proof -
  from parseOptions_entry [OF assms(1,2)] obtain entry where
    e: "featureSupport g catalog (validRange g (rangeSource (optionsVersion opts) dv))
          (optionsIgnores opts) key = Inr entry" and t: "features info key = Some entry"
    by blast
  from assms(3,4) have "isIgnored catalog key (optionsIgnores opts) = Inr False"
    by (simp add: isIgnored_iff [OF assms(2)])
  with e assms(2,5) obtain s1 s2 where
    s1: "modeSupport g (validRange g (rangeSource (optionsVersion opts) dv)) sl = Inr s1" and
    s2: "modeSupport g (validRange g (rangeSource (optionsVersion opts) dv)) st = Inr s2" and
    en: "entry = \<lparr>name = featureName f, singular = featureSingular f,
                 supported = s1, supportedInStrict = s2\<rparr>"
    by (auto simp: featureSupport_def andThen_eq_Inr)
  from s1 have "sl = None \<longrightarrow> \<not> s1" by (auto simp: modeSupport_def)
  moreover from s2 have "st = None \<longrightarrow> \<not> s2" by (auto simp: modeSupport_def)
  ultimately show ?thesis using t en by simp
qed

text \<open>A descriptor whose \<open>node\<close> is \<open>null\<close> is unsupported in both modes.\<close>

lemma null_threshold_entry:
  assumes "parseOptions g catalog opts dv = Inr info"
    and "map_of catalog key = Some f"
    and "key \<notin> set (optionsIgnores opts)"
    and "\<not> (\<exists>alias \<in> set (featureAlias f). alias \<in> set (optionsIgnores opts))"
    and "featureNode f = NodeNull"
  shows "features info key =
           Some \<lparr>name = featureName f, singular = featureSingular f,
                 supported = False, supportedInStrict = False\<rparr>"
proof -
  from parseOptions_entry [OF assms(1,2)] obtain entry where
    e: "featureSupport g catalog (validRange g (rangeSource (optionsVersion opts) dv))
          (optionsIgnores opts) key = Inr entry" and t: "features info key = Some entry"
    by blast
  from assms(3,4) have "isIgnored catalog key (optionsIgnores opts) = Inr False"
    by (simp add: isIgnored_iff [OF assms(2)])
  with e assms(2,5) t show ?thesis by (simp add: featureSupport_def)
qed

text \<open>
  C3. For a feature that is not ignored and whose thresholds are split by mode
  (\<open>node\<close> is an object with \<open>sloppy\<close> and \<open>strict\<close>), a mode whose threshold is
  absent gets \<open>false\<close> in the table \<open>parseOptions\<close> builds, whatever the version:
  \<open>supported\<close> for \<open>sloppy\<close>, \<open>supportedInStrict\<close> for \<open>strict\<close>. The absent threshold
  is no error: the table is built whenever the range of the version is valid and the
  thresholds that are present are.
\<close>

theorem absent_threshold_is_unsupported:
  assumes "map_of catalog key = Some f"
    and "key \<notin> set (optionsIgnores opts)"
    and "\<not> (\<exists>alias \<in> set (featureAlias f). alias \<in> set (optionsIgnores opts))"
    and "featureNode f = NodeObject sl st"
  shows "(\<forall>info. parseOptions g catalog opts dv = Inr info \<longrightarrow>
            (\<exists>entry. features info key = Some entry
               \<and> (sl = None \<longrightarrow> \<not> supported entry)
               \<and> (st = None \<longrightarrow> \<not> supportedInStrict entry)))
         \<and> (\<forall>r. validRange g (rangeSource (optionsVersion opts) dv) = Some r
                  \<and> thresholdsParse g catalog \<longrightarrow>
                (\<exists>info. parseOptions g catalog opts dv = Inr info))"
proof (intro conjI allI impI)
  fix info assume "parseOptions g catalog opts dv = Inr info"
  then show "\<exists>entry. features info key = Some entry
               \<and> (sl = None \<longrightarrow> \<not> supported entry)
               \<and> (st = None \<longrightarrow> \<not> supportedInStrict entry)"
    using assms by (rule absent_threshold_entry)
next
  fix r assume "validRange g (rangeSource (optionsVersion opts) dv) = Some r
      \<and> thresholdsParse g catalog"
  then show "\<exists>info. parseOptions g catalog opts dv = Inr info"
    using parseOptions_returns [of g opts dv r catalog] by blast
qed

subsection \<open>The modelled comparators\<close>

lemma splitOn_nonempty: "splitOn sep s \<noteq> []"
  by (induction s) (auto split: list.splits)

lemma splitOn_Cons_other:
  "c \<noteq> sep \<Longrightarrow> \<exists>w ws. splitOn sep (c # cs) = (c # w) # ws"
  using splitOn_nonempty [of sep cs] by (cases "splitOn sep cs") auto

lemma numericIdentifier_not_digit:
  "digitValue c = None \<Longrightarrow> numericIdentifier (c # w) = None"
  by (simp add: numericIdentifier_def)

lemma parseSemVer_not_digit:
  assumes "digitValue c = None" and "c \<noteq> CHR ''.''"
  shows "parseSemVer (c # cs) = None"
proof -
  from splitOn_Cons_other [OF assms(2)] obtain w ws where
    "splitOn CHR ''.'' (c # cs) = (c # w) # ws" by blast
  with numericIdentifier_not_digit [OF assms(1)] show ?thesis
    by (simp add: parseSemVer_def split: list.splits)
qed

lemma parseSemVer_Nil: "parseSemVer [] = None"
  by (simp add: parseSemVer_def numericIdentifier_def)

lemma parseSemVer_dot: "parseSemVer (CHR ''.'' # cs) = None"
  by (simp add: parseSemVer_def numericIdentifier_def split: list.splits)

lemma parseSemVer_first_digit:
  assumes "parseSemVer s = Some v"
  shows "\<exists>c cs. s = c # cs \<and> c \<noteq> CHR ''='' \<and> c \<noteq> CHR ''<'' \<and> c \<noteq> CHR ''>''"
proof (cases s)
  case Nil
  with assms show ?thesis by (simp add: parseSemVer_Nil)
next
  case (Cons c cs)
  have "digitValue CHR ''='' = None" "digitValue CHR ''<'' = None" "digitValue CHR ''>'' = None"
    by (simp_all add: digitValue_def)
  with assms Cons show ?thesis
    by (auto simp: parseSemVer_not_digit)
qed

lemma validRange_GE:
  assumes "parseSemVer s = Some v"
  shows "validRange g (''>='' @ s) = Some [[(OpGE, v)]]"
  using assms by (simp add: validRange_def parseComparator_def stripPrefix_def)

lemma validRange_LT:
  assumes "parseSemVer s = Some v"
  shows "validRange g (''<'' @ s) = Some [[(OpLT, v)]]"
proof -
  from parseSemVer_first_digit [OF assms] obtain c cs where
    "s = c # cs" "c \<noteq> CHR ''=''" by blast
  with assms show ?thesis
    by (simp add: validRange_def parseComparator_def stripPrefix_def)
qed

lemma rangeIntersects_GE_LT:
  "rangeIntersects [[(OpGE, v)]] [[(OpLT, t)]] = semverLess v t"
  by (simp add: rangeIntersects_def comparatorIntersects_def Let_def)

lemma notBelow_GE:
  assumes "parseSemVer V = Some v" and "parseSemVer T = Some t"
  shows "notBelow g (validRange g (''>='' @ V)) T = Inr (\<not> semverLess v t)"
  using validRange_LT [OF assms(2), of g]
  by (simp add: notBelow_def intersects_def validRange_GE [OF assms(1)]
      rangeIntersects_GE_LT del: append.simps)

lemma semverLess_mono:
  "semverLess v1 v2 \<Longrightarrow> \<not> semverLess v1 t \<Longrightarrow> \<not> semverLess v2 t"
  by (cases v1; cases v2; cases t) auto

lemma rangeSource_version:
  "parseSemVer V = Some v \<Longrightarrow> rangeSource (Some V) dv = ''>='' @ V"
  by (auto simp: rangeSource_def parseSemVer_Nil)

lemma modeSupport_returns:
  "modeSupport g (Some r1) th = Inr b1 \<Longrightarrow> \<exists>b2. modeSupport g (Some r2) th = Inr b2"
  by (cases th)
    (auto simp: modeSupport_def notBelow_def intersects_def andThen_eq_Inr
      split: option.splits)

lemma notBelow_returns:
  "notBelow g (Some r1) v = Inr b1 \<Longrightarrow> \<exists>b2. notBelow g (Some r2) v = Inr b2"
  by (auto simp: notBelow_def intersects_def andThen_eq_Inr split: option.splits)

lemma featureSupport_returns:
  assumes "featureSupport g catalog (Some r1) ignores key = Inr e1"
  shows "\<exists>e2. featureSupport g catalog (Some r2) ignores key = Inr e2"
proof (cases "map_of catalog key")
  case None
  with assms show ?thesis by (simp add: featureSupport_def)
next
  case (Some f)
  from assms Some obtain ig where ig: "isIgnored catalog key ignores = Inr ig"
    by (auto simp: featureSupport_def andThen_eq_Inr)
  show ?thesis
  proof (cases ig)
    case True
    with Some ig show ?thesis by (simp add: featureSupport_def)
  next
    case False
    show ?thesis
    proof (cases "featureNode f")
      case (NodeVersion v)
      with assms Some ig False obtain b1 where "notBelow g (Some r1) v = Inr b1"
        by (auto simp: featureSupport_def andThen_eq_Inr)
      from notBelow_returns [OF this, of r2] obtain b2 where
        "notBelow g (Some r2) v = Inr b2" by blast
      with Some ig False NodeVersion show ?thesis by (simp add: featureSupport_def)
    next
      case NodeNull
      with Some ig False show ?thesis by (simp add: featureSupport_def)
    next
      case (NodeObject sl st)
      with assms Some ig False obtain a1 a2 where
        "modeSupport g (Some r1) sl = Inr a1" "modeSupport g (Some r1) st = Inr a2"
        by (auto simp: featureSupport_def andThen_eq_Inr)
      from modeSupport_returns [OF this(1), of r2] modeSupport_returns [OF this(2), of r2]
      obtain b1 b2 where
        "modeSupport g (Some r2) sl = Inr b1" "modeSupport g (Some r2) st = Inr b2" by blast
      with Some ig False NodeObject show ?thesis by (simp add: featureSupport_def)
    qed
  qed
qed

text \<open>
  C8. Support is monotone in the target version. For a feature with a single threshold
  \<open>T\<close> (a version) and two target versions \<open>V1 < V2\<close> in semver order, configured
  with the same ignore set: when \<open>parseOptions\<close> at \<open>V1\<close> yields \<open>supported = true\<close> for
  the feature, \<open>parseOptions\<close> at \<open>V2\<close> returns a table too and yields
  \<open>supported = true\<close> for it.
\<close>

theorem support_monotone_in_version:
  assumes f: "map_of catalog key = Some f"
    and node: "featureNode f = NodeVersion T"
    and T: "parseSemVer T = Some t"
    and o1: "optionsVersion opts1 = Some V1" and V1: "parseSemVer V1 = Some v1"
    and o2: "optionsVersion opts2 = Some V2" and V2: "parseSemVer V2 = Some v2"
    and less: "semverLess v1 v2"
    and ig: "optionsIgnores opts2 = optionsIgnores opts1"
    and p1: "parseOptions g catalog opts1 dv1 = Inr info1"
    and e1: "features info1 key = Some entry1"
    and s1: "supported entry1"
  shows "\<exists>info2 entry2. parseOptions g catalog opts2 dv2 = Inr info2
           \<and> features info2 key = Some entry2 \<and> supported entry2"
proof -
  define r1 where "r1 = validRange g (''>='' @ V1)"
  define r2 where "r2 = validRange g (''>='' @ V2)"
  let ?ig = "optionsIgnores opts1"
  have r1: "r1 = Some [[(OpGE, v1)]]" and r2: "r2 = Some [[(OpGE, v2)]]"
    unfolding r1_def r2_def by (simp_all only: validRange_GE [OF V1] validRange_GE [OF V2])
  have nb1: "notBelow g r1 T = Inr (\<not> semverLess v1 t)"
    unfolding r1_def by (rule notBelow_GE [OF V1 T])
  have nb2: "notBelow g r2 T = Inr (\<not> semverLess v2 t)"
    unfolding r2_def by (rule notBelow_GE [OF V2 T])
  have red1: "reduceFeatures g catalog r1 ?ig (OPTIONS catalog) Map.empty = Inr (features info1)"
    using parseOptions_Inr(2) [OF p1] unfolding r1_def
    by (simp only: o1 rangeSource_version [OF V1])
  have "\<exists>table. reduceFeatures g catalog r2 ?ig (OPTIONS catalog) Map.empty = Inr table"
  proof (rule reduceFeatures_returns)
    fix k assume "k \<in> set (OPTIONS catalog)"
    with reduceFeatures_Inr [OF red1, of k] obtain e where
      "featureSupport g catalog r1 ?ig k = Inr e" by blast
    then show "\<exists>entry. featureSupport g catalog r2 ?ig k = Inr entry"
      unfolding r1 r2 by (rule featureSupport_returns)
  qed
  then obtain table where
    red2: "reduceFeatures g catalog r2 ?ig (OPTIONS catalog) Map.empty = Inr table" by blast
  then have p2: "parseOptions g catalog opts2 dv2 =
      Inr \<lparr>version = effectiveVersion (Some V2) dv2, features = table\<rparr>"
    unfolding r2_def
    by (simp only: parseOptions_def Let_def o2 ig rangeSource_version [OF V2] andThen_Inr)
  from reduceFeatures_Inr [OF red1, of key] map_of_in_OPTIONS [OF f] e1
  have fs1: "featureSupport g catalog r1 ?ig key = Inr entry1" by auto
  from reduceFeatures_Inr [OF red2, of key] map_of_in_OPTIONS [OF f] obtain entry2 where
    fs2: "featureSupport g catalog r2 ?ig key = Inr entry2" and t2: "table key = Some entry2"
    by blast
  from fs1 f obtain b where b: "isIgnored catalog key ?ig = Inr b"
    by (auto simp: featureSupport_def andThen_eq_Inr)
  have "supported entry2"
  proof (cases b)
    case True
    with fs2 f b show ?thesis by (auto simp: featureSupport_def)
  next
    case False
    with fs1 f b node s1 have "\<not> semverLess v1 t"
      by (auto simp: featureSupport_def nb1)
    with less have "\<not> semverLess v2 t" by (rule semverLess_mono)
    with fs2 f b node False show ?thesis
      by (auto simp: featureSupport_def nb2)
  qed
  with p2 t2 show ?thesis by simp
qed


text \<open>
  C10. A numeric option that is not a key of \<open>VERSION_MAP\<close> (6.1, say), given as the
  option itself or as the \<open>version\<close> of an option object, raises no error of its own:
  \<open>parseOptions\<close> behaves as if the option had been omitted. With a valid
  default range and a catalog whose thresholds are valid, it returns; the \<open>version\<close>
  field is \<open>defaultVersion\<close>, and the table is the one computed from the range of
  \<open>defaultVersion\<close> with an empty ignore set.
\<close>

theorem unknown_numeric_alias_falls_back:
  assumes "map_of VERSION_MAP n = None"
    and "validRange g defaultVersion = Some r"
    and "thresholdsParse g catalog"
  shows "\<exists>info. parseOptions g catalog (OptionsNumber n) defaultVersion = Inr info
           \<and> parseOptions g catalog OptionsUndefined defaultVersion = Inr info
           \<and> parseOptions g catalog (OptionsObject (VersionNumber n) None) defaultVersion
                 = Inr info
           \<and> version info = defaultVersion
           \<and> reduceFeatures g catalog (validRange g defaultVersion) [] (OPTIONS catalog)
                 Map.empty = Inr (features info)
           \<and> (\<forall>key f. map_of catalog key = Some f \<longrightarrow>
                  (\<exists>entry. featureSupport g catalog (validRange g defaultVersion) [] key
                            = Inr entry \<and> features info key = Some entry))"
proof -
  have v: "optionsVersion (OptionsNumber n) = None" "optionsIgnores (OptionsNumber n) = []"
    using assms(1) by (simp_all add: optionsVersion_def optionsIgnores_def)
  have u: "optionsVersion OptionsUndefined = None" "optionsIgnores OptionsUndefined = []"
    by (simp_all add: optionsVersion_def optionsIgnores_def)
  have src: "rangeSource None defaultVersion = defaultVersion"
    "effectiveVersion None defaultVersion = defaultVersion"
    by (simp_all add: rangeSource_def effectiveVersion_def)
  from parseOptions_returns [of g "OptionsNumber n" defaultVersion r catalog] assms(2,3)
  obtain table where
    p: "parseOptions g catalog (OptionsNumber n) defaultVersion =
          Inr \<lparr>version = defaultVersion, features = table\<rparr>" and
    red: "reduceFeatures g catalog (Some r) [] (OPTIONS catalog) Map.empty = Inr table"
    by (auto simp: v src)
  have q: "parseOptions g catalog OptionsUndefined defaultVersion =
          parseOptions g catalog (OptionsNumber n) defaultVersion"
    "parseOptions g catalog (OptionsObject (VersionNumber n) None) defaultVersion =
          parseOptions g catalog (OptionsNumber n) defaultVersion"
    using assms(1) by (simp_all add: parseOptions_def v u optionsVersion_def optionsIgnores_def)
  have "\<exists>entry. featureSupport g catalog (Some r) [] key = Inr entry \<and> table key = Some entry"
    if "map_of catalog key = Some f" for key f
    using reduceFeatures_Inr [OF red, of key] map_of_in_OPTIONS [OF that] by simp
  then have "\<forall>key f. map_of catalog key = Some f \<longrightarrow>
      (\<exists>entry. featureSupport g catalog (Some r) [] key = Inr entry \<and> table key = Some entry)"
    by blast
  with p q red assms(2) show ?thesis by simp
qed


lemmas semver_eval =
  validRange_def parseComparator_def stripPrefix_def parseSemVer_def numericIdentifier_def
  digitValue_def MAX_SAFE_INTEGER_def intersects_def rangeIntersects_def
  comparatorIntersects_def comparatorTest_def

lemmas resolver_eval =
  parseOptions_def optionsVersion_def optionsIgnores_def rangeSource_def effectiveVersion_def
  OPTIONS_def featureSupport_def isIgnored_def notBelow_def modeSupport_def VERSION_MAP_def
  DEFAULT_VERSION_def sampleCatalog_def

theorem ignored_feature_is_supported_witness:
  "\<exists>info. parseOptions (\<lambda>s. None) sampleCatalog
            (OptionsObject (VersionString ''4.0.0'') (Some [''async''])) DEFAULT_VERSION = Inr info
     \<and> map_of sampleCatalog ''asyncAwait''
           = Some (Feature ''async functions'' False (NodeVersion ''7.6.0'') [''syntax'', ''async''])
     \<and> ''async'' \<in> set (optionsIgnores (OptionsObject (VersionString ''4.0.0'') (Some [''async''])))
     \<and> features info ''asyncAwait''
           = Some \<lparr>name = ''async functions'', singular = False,
                   supported = True, supportedInStrict = True\<rparr>
     \<and> features info ''classes''
           = Some \<lparr>name = ''classes'', singular = False,
                   supported = False, supportedInStrict = False\<rparr>"
proof -
  let ?opts = "OptionsObject (VersionString ''4.0.0'') (Some [''async''])"
  let ?info = "\<lparr>version = ''4.0.0'', features =
     [''classes'' \<mapsto> \<lparr>name = ''classes'', singular = False,
                       supported = False, supportedInStrict = False\<rparr>,
      ''asyncAwait'' \<mapsto> \<lparr>name = ''async functions'', singular = False,
                       supported = True, supportedInStrict = True\<rparr>,
      ''modules'' \<mapsto> \<lparr>name = ''import and export declarations'', singular = False,
                       supported = False, supportedInStrict = False\<rparr>]\<rparr>"
  have p: "parseOptions (\<lambda>s. None) sampleCatalog ?opts DEFAULT_VERSION = Inr ?info"
    by (simp add: semver_eval resolver_eval)
  have m: "map_of sampleCatalog ''asyncAwait''
      = Some (Feature ''async functions'' False (NodeVersion ''7.6.0'') [''syntax'', ''async''])"
    by (simp add: sampleCatalog_def)
  have i: "''asyncAwait'' \<in> set (optionsIgnores ?opts)
      \<or> (\<exists>alias \<in> set (featureAlias
             (Feature ''async functions'' False (NodeVersion ''7.6.0'') [''syntax'', ''async''])).
           alias \<in> set (optionsIgnores ?opts))"
    by (simp add: optionsIgnores_def)
  from ignored_feature_is_supported [OF m i, of "\<lambda>s. None" DEFAULT_VERSION] p m
  show ?thesis by (simp add: optionsIgnores_def)
qed

theorem absent_threshold_is_unsupported_witness:
  "\<exists>info entry. parseOptions (\<lambda>s. None) sampleCatalog (OptionsString ''10.0.0'') DEFAULT_VERSION
         = Inr info
     \<and> map_of sampleCatalog ''modules''
           = Some (Feature ''import and export declarations'' False
                     (NodeObject (Some ''8.5.0'') None) [])
     \<and> features info ''modules'' = Some entry
     \<and> supported entry \<and> \<not> supportedInStrict entry"
proof -
  let ?opts = "OptionsString ''10.0.0''"
  let ?info = "\<lparr>version = ''10.0.0'', features =
     [''classes'' \<mapsto> \<lparr>name = ''classes'', singular = False,
                       supported = True, supportedInStrict = True\<rparr>,
      ''asyncAwait'' \<mapsto> \<lparr>name = ''async functions'', singular = False,
                       supported = True, supportedInStrict = True\<rparr>,
      ''modules'' \<mapsto> \<lparr>name = ''import and export declarations'', singular = False,
                       supported = True, supportedInStrict = False\<rparr>]\<rparr>"
  have p: "parseOptions (\<lambda>s. None) sampleCatalog ?opts DEFAULT_VERSION = Inr ?info"
    by (simp add: semver_eval resolver_eval)
  have m: "map_of sampleCatalog ''modules''
      = Some (Feature ''import and export declarations'' False
                (NodeObject (Some ''8.5.0'') None) [])"
    by (simp add: sampleCatalog_def)
  from absent_threshold_is_unsupported
    [OF m, of ?opts "Some ''8.5.0''" None "\<lambda>s. None" DEFAULT_VERSION] p
  obtain entry where "features ?info ''modules'' = Some entry" "\<not> supportedInStrict entry"
    by (auto simp: optionsIgnores_def)
  with p m show ?thesis by auto
qed

theorem support_monotone_in_version_witness:
  "\<exists>info1 info2 entry1 entry2.
     parseOptions (\<lambda>s. None) sampleCatalog (OptionsNumber (Finite (76 / 10))) DEFAULT_VERSION
       = Inr info1
     \<and> features info1 ''asyncAwait'' = Some entry1 \<and> supported entry1
     \<and> parseSemVer ''7.6.0'' = Some (7, 6, 0) \<and> parseSemVer ''8.0.0'' = Some (8, 0, 0)
     \<and> semverLess (7, 6, 0) (8, 0, 0)
     \<and> parseOptions (\<lambda>s. None) sampleCatalog (OptionsString ''8.0.0'') DEFAULT_VERSION
       = Inr info2
     \<and> features info2 ''asyncAwait'' = Some entry2 \<and> supported entry2"
proof -
  let ?info1 = "\<lparr>version = ''7.6.0'', features =
     [''classes'' \<mapsto> \<lparr>name = ''classes'', singular = False,
                       supported = True, supportedInStrict = True\<rparr>,
      ''asyncAwait'' \<mapsto> \<lparr>name = ''async functions'', singular = False,
                       supported = True, supportedInStrict = True\<rparr>,
      ''modules'' \<mapsto> \<lparr>name = ''import and export declarations'', singular = False,
                       supported = False, supportedInStrict = False\<rparr>]\<rparr>"
  have p1: "parseOptions (\<lambda>s. None) sampleCatalog (OptionsNumber (Finite (76 / 10)))
      DEFAULT_VERSION = Inr ?info1"
    by (simp add: semver_eval resolver_eval)
  have m: "map_of sampleCatalog ''asyncAwait''
      = Some (Feature ''async functions'' False (NodeVersion ''7.6.0'') [''syntax'', ''async''])"
    by (simp add: sampleCatalog_def)
  have v: "parseSemVer ''7.6.0'' = Some (7, 6, 0)" "parseSemVer ''8.0.0'' = Some (8, 0, 0)"
    by (simp_all add: semver_eval)
  have o: "optionsVersion (OptionsNumber (Finite (76 / 10))) = Some ''7.6.0''"
    "optionsVersion (OptionsString ''8.0.0'') = Some ''8.0.0''"
    "optionsIgnores (OptionsString ''8.0.0'') = optionsIgnores (OptionsNumber (Finite (76 / 10)))"
    by (simp_all add: optionsVersion_def optionsIgnores_def VERSION_MAP_def)
  have l: "semverLess (7, 6, 0) (8, 0, 0)" by simp
  have e: "features ?info1 ''asyncAwait'' = Some \<lparr>name = ''async functions'',
      singular = False, supported = True, supportedInStrict = True\<rparr>" by simp
  from support_monotone_in_version [OF m _ v(1) o(1) v(1) o(2) v(2) l o(3) p1 e,
      of DEFAULT_VERSION]
  obtain info2 entry2 where
    "parseOptions (\<lambda>s. None) sampleCatalog (OptionsString ''8.0.0'') DEFAULT_VERSION = Inr info2"
    "features info2 ''asyncAwait'' = Some entry2" "supported entry2"
    by auto
  with p1 e v l show ?thesis by auto
qed

theorem unknown_numeric_alias_falls_back_witness:
  "map_of VERSION_MAP (Finite (61 / 10)) = None
   \<and> (\<exists>info. parseOptions (\<lambda>s. None) sampleCatalog (OptionsNumber (Finite (61 / 10)))
                 DEFAULT_VERSION = Inr info
          \<and> version info = ''6.0.0''
          \<and> features info ''classes''
                = Some \<lparr>name = ''classes'', singular = False,
                        supported = True, supportedInStrict = True\<rparr>
          \<and> features info ''asyncAwait''
                = Some \<lparr>name = ''async functions'', singular = False,
                        supported = False, supportedInStrict = False\<rparr>)"
proof -
  have h1: "map_of VERSION_MAP (Finite (61 / 10)) = None"
    by (simp add: VERSION_MAP_def)
  have h2: "validRange (\<lambda>s. None) DEFAULT_VERSION = Some [[(OpEQ, 6, 0, 0)]]"
    by (simp add: DEFAULT_VERSION_def semver_eval)
  have h3: "thresholdsParse (\<lambda>s. None) sampleCatalog"
    by (simp add: thresholdsParse_def thresholdParses_def sampleCatalog_def semver_eval)
  have m: "map_of sampleCatalog ''classes''
      = Some (Feature ''classes'' False (NodeObject (Some ''6.0.0'') (Some ''6.0.0'')) [''syntax''])"
    "map_of sampleCatalog ''asyncAwait''
      = Some (Feature ''async functions'' False (NodeVersion ''7.6.0'') [''syntax'', ''async''])"
    by (simp_all add: sampleCatalog_def)
  have f: "featureSupport (\<lambda>s. None) sampleCatalog (validRange (\<lambda>s. None) DEFAULT_VERSION) []
      ''classes'' = Inr \<lparr>name = ''classes'', singular = False,
                        supported = True, supportedInStrict = True\<rparr>"
    "featureSupport (\<lambda>s. None) sampleCatalog (validRange (\<lambda>s. None) DEFAULT_VERSION) []
      ''asyncAwait'' = Inr \<lparr>name = ''async functions'', singular = False,
                        supported = False, supportedInStrict = False\<rparr>"
    by (simp_all add: semver_eval resolver_eval)
  from unknown_numeric_alias_falls_back [OF h1 h2 h3] obtain info where
    "parseOptions (\<lambda>s. None) sampleCatalog (OptionsNumber (Finite (61 / 10))) DEFAULT_VERSION
       = Inr info"
    "version info = DEFAULT_VERSION"
    "\<forall>key f. map_of sampleCatalog key = Some f \<longrightarrow>
        (\<exists>entry. featureSupport (\<lambda>s. None) sampleCatalog
            (validRange (\<lambda>s. None) DEFAULT_VERSION) [] key = Inr entry
          \<and> features info key = Some entry)"
    by blast
  with m f h1 show ?thesis by (auto simp: DEFAULT_VERSION_def)
qed

section \<open>Properties of the report function\<close>

lemma interpolate_unsupportedMessage:
  "interpolate ''{{feature}} {{be}} not supported yet on Node {{version}}.''
     [(''feature'', f), (''be'', b), (''version'', v)]
   = f @ '' '' @ b @ '' not supported yet on Node '' @ v @ ''.''"
  by (simp add: interpolate_def)

lemma isStrict_eq:
  "isStrict currentScope nd =
     (if childScopes (innermost currentScope (fst (nodeRange nd))) = []
      then Some (scopeStrict (innermost currentScope (fst (nodeRange nd))))
      else None)"
  by (simp add: isStrict_def getInnermostScope_eq)

text \<open>
  What \<open>report\<close> does for a key of the support table, case by case. In the third case the
  answer depends on the scope locator: when the innermost scope around the node has child
  scopes, the call does not return.
\<close>

lemma report_supported:
  "features supportInfo key = Some feature \<Longrightarrow> supported feature \<Longrightarrow>
     report supportInfo currentScope nd key = ([], Returned)"
  by (simp add: report_def)

lemma report_unsupported:
  "features supportInfo key = Some feature \<Longrightarrow> \<not> supported feature \<Longrightarrow>
   \<not> supportedInStrict feature \<Longrightarrow>
     report supportInfo currentScope nd key =
       ([\<lparr>node = nd,
          message = ''{{feature}} {{be}} not supported yet on Node {{version}}.'',
          data = [(''feature'', name feature), (''be'', be (singular feature)),
                  (''version'', version supportInfo)]\<rparr>], Returned)"
  by (simp add: report_def)

lemma report_strict_only:
  "features supportInfo key = Some feature \<Longrightarrow> \<not> supported feature \<Longrightarrow>
   supportedInStrict feature \<Longrightarrow>
     report supportInfo currentScope nd key =
       (if childScopes (innermost currentScope (fst (nodeRange nd))) \<noteq> [] then ([], Diverged)
        else if scopeStrict (innermost currentScope (fst (nodeRange nd))) then ([], Returned)
        else
          ([\<lparr>node = nd,
             message = ''{{feature}} {{be}} not supported yet on Node {{version}}.'',
             data = [(''feature'', name feature @ '' in non-strict mode''),
                     (''be'', be (singular feature)),
                     (''version'', version supportInfo)]\<rparr>], Returned))"
  by (simp add: report_def isStrict_eq)

lemma report_unknown_key:
  "features supportInfo key = None \<Longrightarrow>
     report supportInfo currentScope nd key = ([], Thrown TypeError)"
  by (simp add: report_def)


text \<open>
  C6. The claim: \<open>report\<close> emits nothing for a supported feature, exactly one diagnostic
  for a feature unsupported in both modes, and, for a feature supported in strict mode
  only, a diagnostic exactly when the innermost scope around the start of the node is not
  strict. The first two parts hold (\<open>report_supported\<close>, \<open>report_unsupported\<close>). The
  third fails where the scope locator does not return: for the script
  \<open>function f(){} const a = 1\<close>, the declaration at offset 15 lies in the global scope,
  which is not strict and whose only child scope \<open>[0, 14)\<close> does not contain it; a
  diagnostic is due, and \<open>report\<close> emits none and never returns.
\<close>

theorem report_hangs_in_uncovered_sloppy_scope:
  "features \<lparr>version = ''4.0.0'', features =
       [''const'' \<mapsto> \<lparr>name = ''const declarations'', singular = False,
                       supported = False, supportedInStrict = True\<rparr>]\<rparr> ''const''
     = Some \<lparr>name = ''const declarations'', singular = False,
             supported = False, supportedInStrict = True\<rparr>
   \<and> strictTree (Scope (0, 27) False [Scope (0, 14) False []])
   \<and> innermost (Scope (0, 27) False [Scope (0, 14) False []]) 15
       = Scope (0, 27) False [Scope (0, 14) False []]
   \<and> \<not> scopeStrict (Scope (0, 27) False [Scope (0, 14) False []])
   \<and> report
       \<lparr>version = ''4.0.0'', features =
          [''const'' \<mapsto> \<lparr>name = ''const declarations'', singular = False,
                          supported = False, supportedInStrict = True\<rparr>]\<rparr>
       (Scope (0, 27) False [Scope (0, 14) False []])
       \<lparr>nodeType = ''VariableDeclaration'', nodeRange = (15, 26),
        nodeParent = Some \<lparr>parentType = ''Program'', superClassIsNode = False\<rparr>\<rparr>
       ''const''
     = ([], Diverged)"
  by (simp add: report_def isStrict_eq innermost.simps containsLocation_def)

text \<open>
  C7, as the code has it. Every diagnostic \<open>report\<close> emits renders as
  \<open>{feature} {is|are} not supported yet on Node {version}.\<close>, with \<open>is\<close> when the
  \<open>singular\<close> flag of the feature is set and \<open>are\<close> otherwise, and with
  \<open>in non-strict mode\<close> after the feature name when the feature is supported in strict
  mode. The claim has \<open>on target\<close> where the code has \<open>on Node\<close>.
\<close>

theorem report_message:
  assumes "features supportInfo key = Some feature"
    and "d \<in> set (fst (report supportInfo currentScope nd key))"
  shows "rendered d =
           name feature @ (if supportedInStrict feature then '' in non-strict mode'' else [])
           @ '' '' @ (if singular feature then ''is'' else ''are'')
           @ '' not supported yet on Node '' @ version supportInfo @ ''.''"
proof (cases "supported feature")
  case True
  with assms show ?thesis by (simp add: report_supported)
next
  case False
  show ?thesis
  proof (cases "supportedInStrict feature")
    case True
    with assms False show ?thesis
      by (auto simp: report_strict_only rendered_def interpolate_unsupportedMessage be_def
          split: if_splits)
  next
    case strictToo: False
    with assms False show ?thesis
      by (auto simp: report_unsupported rendered_def interpolate_unsupportedMessage be_def)
  qed
qed

text \<open>
  C7, as claimed, fails: with a table for version 4.0.0 in which generator functions are
  unsupported, the message is not the claimed
  \<open>generator functions are not supported yet on target 4.0.0.\<close>
\<close>

theorem report_message_counterexample:
  "map rendered (fst (report
       \<lparr>version = ''4.0.0'', features =
          [''generatorFunctions'' \<mapsto> \<lparr>name = ''generator functions'', singular = False,
                                      supported = False, supportedInStrict = False\<rparr>]\<rparr>
       (Scope (0, 20) False [])
       \<lparr>nodeType = ''FunctionDeclaration'', nodeRange = (0, 20),
        nodeParent = Some \<lparr>parentType = ''Program'', superClassIsNode = False\<rparr>\<rparr>
       ''generatorFunctions''))
     = [''generator functions are not supported yet on Node 4.0.0.'']
   \<and> ''generator functions are not supported yet on Node 4.0.0.''
       \<noteq> ''generator functions are not supported yet on target 4.0.0.''"
  by (simp add: report_def rendered_def interpolate_def be_def)

theorem report_message_witness:
  "map rendered (fst (report
       \<lparr>version = ''4.0.0'', features =
          [''let'' \<mapsto> \<lparr>name = ''let declarations'', singular = False,
                        supported = False, supportedInStrict = True\<rparr>]\<rparr>
       (Scope (0, 20) False [])
       \<lparr>nodeType = ''VariableDeclaration'', nodeRange = (0, 10),
        nodeParent = Some \<lparr>parentType = ''Program'', superClassIsNode = False\<rparr>\<rparr>
       ''let''))
     = [''let declarations in non-strict mode are not supported yet on Node 4.0.0.'']"
proof -
  let ?info = "\<lparr>version = ''4.0.0'', features =
          [''let'' \<mapsto> \<lparr>name = ''let declarations'', singular = False,
                        supported = False, supportedInStrict = True\<rparr>]\<rparr>"
  let ?nd = "\<lparr>nodeType = ''VariableDeclaration'', nodeRange = (0, 10),
        nodeParent = Some \<lparr>parentType = ''Program'', superClassIsNode = False\<rparr>\<rparr>"
  let ?d = "\<lparr>node = ?nd,
             message = ''{{feature}} {{be}} not supported yet on Node {{version}}.'',
             data = [(''feature'', ''let declarations in non-strict mode''),
                     (''be'', ''are''), (''version'', ''4.0.0'')]\<rparr>"
  have r: "fst (report ?info (Scope (0, 20) False []) ?nd ''let'') = [?d]"
    by (simp add: report_def isStrict_eq innermost.simps be_def)
  have f: "features ?info ''let'' = Some \<lparr>name = ''let declarations'', singular = False,
                        supported = False, supportedInStrict = True\<rparr>" by simp
  have "?d \<in> set (fst (report ?info (Scope (0, 20) False []) ?nd ''let''))"
    by (simp only: r list.set_intros)
  from report_message [OF f this] have "rendered ?d =
      ''let declarations in non-strict mode are not supported yet on Node 4.0.0.''"
    by simp
  with r show ?thesis by simp
qed

section \<open>Properties of the visitor merge\<close>

lemma andThen_return [simp]: "andThen r Inr = r"
  by (cases r) simp_all

lemma andThen_assoc: "andThen (andThen r k) l = andThen r (\<lambda>x. andThen (k x) l)"
  by (cases r) simp_all

lemma callEach_andThen: "callEach (f # fs) nd s = andThen (call f nd s) (callEach fs nd)"
  by (simp add: andThen_def)

lemma callEach_append:
  "callEach (fs @ gs) nd s = andThen (callEach fs nd s) (callEach gs nd)"
proof (induction fs arbitrary: s)
  case Nil
  show ?case by simp
next
  case (Cons f fs)
  show ?case
    by (cases "call f nd s") (simp_all add: Cons.IH)
qed

lemma callEach_single: "callEach [f] nd = call f nd"
proof (rule ext)
  fix s show "callEach [f] nd s = call f nd s"
    by (cases "call f nd s") simp_all
qed

lemma map_of_assign:
  "map_of (assign x key v) k = (if k = key then Some v else map_of x k)"
  by (induction x key v rule: assign.induct) auto

lemma keys_assign: "fst ` set (assign x key v) = insert key (fst ` set x)"
  by (induction x key v rule: assign.induct) auto

lemma call_Mux_pair: "call (Mux [f, g]) nd s = andThen (call f nd s) (call g nd)"
  by (simp only: call.simps callEach_andThen [of f "[g]"] callEach_single)

lemma call_Mux_push: "call (Mux (fs @ [g])) nd s = andThen (call (Mux fs) nd s) (call g nd)"
  by (simp only: call.simps callEach_append callEach_single)

text \<open>One round of the loop of \<open>merge\<close>, seen from a visit.\<close>

lemma visit_mergeKey:
  "visit (mergeKey x (key, yk)) k nd s =
     (if k = key then andThen (visit x key nd s) (call yk nd) else visit x k nd s)"
proof (cases "map_of x key")
  case None
  then show ?thesis by (simp add: mergeKey_def visit_def map_of_assign)
next
  case (Some h)
  show ?thesis
  proof (cases h)
    case (Plain f)
    with Some show ?thesis
      by (simp add: mergeKey_def visit_def map_of_assign call_Mux_pair del: call.simps)
  next
    case (Mux fs)
    with Some show ?thesis
      by (simp add: mergeKey_def visit_def map_of_assign call_Mux_push del: call.simps)
  qed
qed

lemma visit_absent: "key \<notin> set (map fst y) \<Longrightarrow> visit y key nd s = Inr s"
  by (simp add: visit_def map_of_eq_None_iff [THEN iffD2])

lemma visit_foldl_mergeKey:
  assumes "distinct (map fst y)"
  shows "visit (foldl mergeKey x y) k nd s = andThen (visit x k nd s) (visit y k nd)"
  using assms
proof (induction y arbitrary: x)
  case Nil
  show ?case by (simp add: visit_def [of "[]"] cong: if_cong)
next
  case (Cons entry y)
  obtain key yk where entry: "entry = (key, yk)" by (cases entry)
  from Cons.prems entry have d: "distinct (map fst y)" and fresh: "key \<notin> set (map fst y)"
    by simp_all
  have step: "visit (foldl mergeKey (mergeKey x (key, yk)) y) k nd s =
      andThen (visit (mergeKey x (key, yk)) k nd s) (visit y k nd)"
    by (rule Cons.IH [OF d])
  show ?case
  proof (cases "k = key")
    case True
    have "visit y key nd = Inr" by (rule ext) (simp add: visit_absent [OF fresh])
    moreover have "visit ((key, yk) # y) key nd = call yk nd"
      by (rule ext) (simp add: visit_def)
    ultimately show ?thesis using step True entry by (simp add: visit_mergeKey)
  next
    case False
    then have "visit ((key, yk) # y) k nd = visit y k nd"
      by (intro ext) (simp add: visit_def)
    with step False entry show ?thesis by (simp add: visit_mergeKey)
  qed
qed

text \<open>
  A visit through the merged visitor runs the handler of \<open>x\<close> and then, when that one
  returned, the handler of \<open>y\<close>.
\<close>

lemma visit_merge:
  "distinct (map fst y) \<Longrightarrow>
     visit (merge x y) key nd s = andThen (visit x key nd s) (visit y key nd)"
  by (simp add: merge_def visit_foldl_mergeKey)

lemma visit_successive_merges:
  assumes "\<forall>y \<in> set ys. distinct (map fst y)"
  shows "visit (foldl merge x ys) key nd s =
           foldl (\<lambda>r y. andThen r (visit y key nd)) (visit x key nd s) ys"
  using assms
proof (induction ys arbitrary: x)
  case Nil
  show ?case by simp
next
  case (Cons y ys)
  then have "visit (foldl merge (merge x y) ys) key nd s =
      foldl (\<lambda>r y. andThen r (visit y key nd)) (visit (merge x y) key nd s) ys"
    by simp
  with Cons.prems show ?case by (simp add: visit_merge)
qed

lemma merge_defines:
  assumes "distinct (map fst y)" and "map_of x key = Some a"
  shows "\<exists>m. map_of (merge x y) key = Some m"
proof -
  have "key \<in> fst ` set (foldl mergeKey x y)" if "key \<in> fst ` set x" for x
    using that
  proof (induction y arbitrary: x)
    case Nil
    then show ?case by simp
  next
    case (Cons entry y)
    have "key \<in> fst ` set (mergeKey x entry)"
      using Cons.prems
      by (cases entry) (auto simp: mergeKey_def keys_assign split: option.splits handler.splits)
    then show ?case by (simp add: Cons.IH)
  qed
  moreover from assms(2) have "key \<in> fst ` set x"
    by (metis map_of_eq_None_iff option.distinct(1))
  ultimately have "map_of (merge x y) key \<noteq> None"
    by (simp add: merge_def map_of_eq_None_iff)
  then show ?thesis by blast
qed

text \<open>
  C4, as the code has it. When \<open>A\<close> and \<open>B\<close> both have a handler for a key, the merged
  visitor has one handler for it, and calling it runs the handler of \<open>A\<close> and then, from
  the state that one left, the handler of \<open>B\<close>, each once; nothing a handler returns
  changes that. After further merges a visit runs the handlers for the key in the order
  of the merges. A handler that throws ends the visit: the handlers merged after it are
  not run.
\<close>

theorem merge_runs_both_handlers_in_order:
  assumes "distinct (map fst B)"
    and "\<forall>C \<in> set Cs. distinct (map fst C)"
    and "map_of A key = Some a"
    and "map_of B key = Some b"
  shows "(\<exists>m. map_of (merge A B) key = Some m
            \<and> call m nd s = andThen (call a nd s) (call b nd))
         \<and> visit (foldl merge A (B # Cs)) key nd s =
             foldl (\<lambda>r C. andThen r (visit C key nd)) (andThen (call a nd s) (call b nd)) Cs"
proof -
  from merge_defines [OF assms(1,3)] obtain m where m: "map_of (merge A B) key = Some m"
    by blast
  have v: "visit (merge A B) key nd s = andThen (call a nd s) (call b nd)"
  proof -
    have "visit B key nd = call b nd" using assms(4) by (intro ext) (simp add: visit_def)
    with assms(3) show ?thesis by (simp add: visit_merge [OF assms(1)] visit_def [of A])
  qed
  with m have "call m nd s = andThen (call a nd s) (call b nd)" by (simp add: visit_def)
  moreover have "visit (foldl merge A (B # Cs)) key nd s =
      foldl (\<lambda>r C. andThen r (visit C key nd)) (andThen (call a nd s) (call b nd)) Cs"
    using visit_successive_merges [OF assms(2), of "merge A B" key nd s] v by simp
  ultimately show ?thesis using m by blast
qed

text \<open>
  C4, as claimed ("no handler can prevent a later-merged handler for the same key from
  running"), fails: when the handler of \<open>A\<close> throws, the visit ends with the exception
  whatever handler was merged after it.
\<close>

theorem merge_throwing_handler_counterexample:
  "\<forall>later :: (unit, string list) handler.
     visit (merge [(''Identifier'', Plain (\<lambda>nd log. Inl TypeError))] [(''Identifier'', later)])
       ''Identifier'' () [] = Inl TypeError"
  by (simp add: merge_def mergeKey_def visit_def)

theorem merge_runs_both_handlers_in_order_witness:
  "visit (foldl merge [(''Identifier'', Plain (\<lambda>nd log. Inr (log @ [''a''])))]
            [[(''Identifier'', Plain (\<lambda>nd log. Inr (log @ [''b''])))],
             [(''Literal'', Plain (\<lambda>nd log. Inr (log @ [''x''])))],
             [(''Identifier'', Plain (\<lambda>nd log. Inr (log @ [''c''])))]])
     ''Identifier'' () [] = Inr [''a'', ''b'', ''c'']"
proof -
  let ?a = "Plain (\<lambda>nd log. Inr (log @ [''a''])) :: (unit, string list) handler"
  let ?b = "Plain (\<lambda>nd log. Inr (log @ [''b''])) :: (unit, string list) handler"
  let ?x = "Plain (\<lambda>nd log. Inr (log @ [''x''])) :: (unit, string list) handler"
  let ?c = "Plain (\<lambda>nd log. Inr (log @ [''c''])) :: (unit, string list) handler"
  have d: "distinct (map fst [(''Identifier'', ?b)])"
    "\<forall>C \<in> set [[(''Literal'', ?x)], [(''Identifier'', ?c)]]. distinct (map fst C)"
    by simp_all
  have m: "map_of [(''Identifier'', ?a)] ''Identifier'' = Some ?a"
    "map_of [(''Identifier'', ?b)] ''Identifier'' = Some ?b" by simp_all
  from merge_runs_both_handlers_in_order [OF d m, of "()" "[]"]
  show ?thesis by (simp add: visit_def)
qed

section \<open>Properties of the end-of-traversal pass\<close>

lemma featureReports_append [simp]:
  "featureReports k (xs @ ys) = featureReports k xs @ featureReports k ys"
  by (simp add: featureReports_def)

lemma featureReports_Nil [simp]: "featureReports k [] = []"
  by (simp add: featureReports_def)

lemma featureReports_subclass [simp]: "featureReports k (tagged e SubclassReport ds) = []"
  by (simp add: featureReports_def tagged_def)





lemma tagged_Nil [simp]: "tagged e site [] = []"
  by (simp add: tagged_def)







text \<open>
  The scenario of the specification: the code \<open>Atomics.wait\<close>. The tracer yields the
  bare read of \<open>Atomics\<close> and the read of \<open>Atomics.wait\<close>; both nodes start at the
  same offset. When the catalog has no entry of its own for \<open>Atomics.wait\<close>, the one
  report is made for \<open>Atomics\<close>.
\<close>

lemma programExit_Atomics_wait:
  assumes "''Atomics'' \<in> set (OPTIONS catalog)"
    and "''Atomics.wait'' \<notin> set (OPTIONS catalog)"
    and "features supportInfo ''Atomics'' = Some A"
    and "\<not> supported A" and "\<not> supportedInStrict A"
  shows "programExit catalog supportInfo currentScope
           [Event bare [''Atomics''], Event member [''Atomics'', ''wait'']]
         = ([(Event bare [''Atomics''], FeatureReport,
              \<lparr>node = bare,
               message = ''{{feature}} {{be}} not supported yet on Node {{version}}.'',
               data = [(''feature'', name A), (''be'', be (singular A)),
                       (''version'', version supportInfo)]\<rparr>)], Returned)"
  using assms
  by (simp add: programExit_def eventStep_def Let_def subclassTest_def
      SUBCLASSING_TEST_TARGETS_def report_def tagged_def)

text \<open>
  When the catalog has an entry for \<open>Atomics.wait\<close> too, the events are consumed in
  reverse, the report is made for \<open>Atomics.wait\<close> and the bare read, which has the same
  compound key, is skipped.
\<close>

lemma programExit_Atomics_wait_entry:
  assumes "''Atomics'' \<in> set (OPTIONS catalog)"
    and "''Atomics.wait'' \<in> set (OPTIONS catalog)"
    and "features supportInfo ''Atomics.wait'' = Some W"
    and "\<not> supported W" and "\<not> supportedInStrict W"
    and "fst (nodeRange bare) = fst (nodeRange member)"
  shows "programExit catalog supportInfo currentScope
           [Event bare [''Atomics''], Event member [''Atomics'', ''wait'']]
         = ([(Event member [''Atomics'', ''wait''], FeatureReport,
              \<lparr>node = member,
               message = ''{{feature}} {{be}} not supported yet on Node {{version}}.'',
               data = [(''feature'', name W), (''be'', be (singular W)),
                       (''version'', version supportInfo)]\<rparr>)], Returned)"
  using assms
  by (simp add: programExit_def eventStep_def Let_def subclassTest_def
      SUBCLASSING_TEST_TARGETS_def report_def tagged_def ignoreKeyOf_def pathRoot_def)

text \<open>
  In either order of the two events, and with or without an entry for \<open>Atomics.wait\<close> in
  the catalog, the code \<open>Atomics.wait\<close> gets exactly one diagnostic.
\<close>

lemma programExit_Atomics_wait_one_diagnostic:
  assumes "''Atomics'' \<in> set (OPTIONS catalog)"
    and "features supportInfo ''Atomics'' = Some A"
    and "\<not> supported A" and "\<not> supportedInStrict A"
    and "''Atomics.wait'' \<in> set (OPTIONS catalog) \<Longrightarrow>
           \<exists>W. features supportInfo ''Atomics.wait'' = Some W
              \<and> \<not> supported W \<and> \<not> supportedInStrict W"
    and "fst (nodeRange bare) = fst (nodeRange member)"
  shows "length (fst (programExit catalog supportInfo currentScope
           [Event bare [''Atomics''], Event member [''Atomics'', ''wait'']])) = 1"
    and "length (fst (programExit catalog supportInfo currentScope
           [Event member [''Atomics'', ''wait''], Event bare [''Atomics'']])) = 1"
proof -
  show "length (fst (programExit catalog supportInfo currentScope
           [Event bare [''Atomics''], Event member [''Atomics'', ''wait'']])) = 1"
  proof (cases "''Atomics.wait'' \<in> set (OPTIONS catalog)")
    case True
    with assms(5) obtain W where "features supportInfo ''Atomics.wait'' = Some W"
      "\<not> supported W" "\<not> supportedInStrict W" by blast
    with True assms(1,6) show ?thesis
      by (simp add: programExit_Atomics_wait_entry)
  next
    case False
    with assms(1-4) show ?thesis by (simp add: programExit_Atomics_wait)
  qed
  show "length (fst (programExit catalog supportInfo currentScope
           [Event member [''Atomics'', ''wait''], Event bare [''Atomics'']])) = 1"
    using assms(1-4,6)
    by (simp add: programExit_def eventStep_def Let_def subclassTest_def
        SUBCLASSING_TEST_TARGETS_def report_def tagged_def ignoreKeyOf_def pathRoot_def)
qed








end
